theory Spec2Isabelle
  imports Main "HOL-Library.Word"
begin

section \<open>Common types\<close>

type_synonym u64 = "64 word"

text \<open>
  Modelled from the spec: \<^verbatim>\<open>Status\<close> (\<^verbatim>\<open>kudu/util/status.h\<close> is not among the sources).
  Only the status code is kept; the message text (and so what
  \<^verbatim>\<open>RETURN_NOT_OK_PREPEND\<close> adds to it) is not modelled.
\<close>

datatype Status =
  OK | IllegalState | ServiceUnavailable | InvalidArgument | AlreadyPresent | Aborted
  | IOError | Corruption

text \<open>
  Modelled from the spec: \<^verbatim>\<open>OpId\<close> and \<^verbatim>\<open>OpIdCompare\<close> (the protobuf and
  \<^verbatim>\<open>log_util\<close> are not among the sources): a pair (term, index) of unsigned 64-bit
  numbers, compared lexicographically. \<^verbatim>\<open>OpIdLessThan\<close> is the comparator of the
  ordered containers keyed by an OpId.
\<close>

datatype OpId = OpId (op_term: u64) (op_index: u64)

definition OpIdCompare :: "OpId \<Rightarrow> OpId \<Rightarrow> int" where
  "OpIdCompare first second =
     (if op_term first = op_term second
      then (if op_index first < op_index second then - 1
            else if op_index first = op_index second then 0 else 1)
      else if op_term first < op_term second then - 1 else 1)"

definition OpIdLessThan :: "OpId \<Rightarrow> OpId \<Rightarrow> bool" where
  "OpIdLessThan a b = (OpIdCompare a b < 0)"

datatype OperationType =
  UNKNOWN_OP | NO_OP | WRITE_OP | ALTER_SCHEMA_OP | CHANGE_CONFIG_OP | PARTICIPANT_OP

type_synonym FutureCallback = nat

section \<open>QuorumState\<close>

datatype Role = LEADER | FOLLOWER | CANDIDATE | LEARNER | NON_PARTICIPANT

datatype QuorumPeerPB = QuorumPeerPB (permanent_uuid: string) (pb_role: Role)

text \<open>
  The \<^verbatim>\<open>seqno\<close> of a quorum is an \<^verbatim>\<open>int64\<close>; it is kept as the 64 bits that hold
  it, so that \<open>+ 1\<close> is the machine's addition.
\<close>

datatype QuorumPB = QuorumPB (peers: "QuorumPeerPB list") (seqno: u64)

record QuorumState =
  role :: Role
  leader_uuid :: string
  voting_peers :: "string set"
  majority_size :: int
  quorum_size :: int
  config_seqno :: u64

text \<open>
  The \<^verbatim>\<open>BOOST_FOREACH\<close> of \<^verbatim>\<open>QuorumState::Build\<close>: one pass over the peers, carrying
  the three locals \<^verbatim>\<open>role\<close>, \<^verbatim>\<open>voting_peers\<close> and \<^verbatim>\<open>leader_uuid\<close>.
\<close>

fun Build_loop :: "string \<Rightarrow> QuorumPeerPB list \<Rightarrow> Role \<times> string set \<times> string
    \<Rightarrow> Role \<times> string set \<times> string" where
  "Build_loop self_uuid [] acc = acc"
| "Build_loop self_uuid (peer_pb # rest) (r, vp, l) =
     Build_loop self_uuid rest
       (if permanent_uuid peer_pb = self_uuid then pb_role peer_pb else r,
        if pb_role peer_pb = LEADER \<or> pb_role peer_pb = FOLLOWER
        then insert (permanent_uuid peer_pb) vp else vp,
        if pb_role peer_pb = LEADER then permanent_uuid peer_pb else l)"

text \<open>
  \<^verbatim>\<open>majority_size\<close> and \<^verbatim>\<open>quorum_size\<close> are C++ \<^verbatim>\<open>int\<close>s. \<^verbatim>\<open>peers_size()\<close> is itself
  an \<^verbatim>\<open>int\<close>, so there are fewer than \<open>2 ^ 31\<close> peers and neither value can overflow;
  they are modelled as unbounded integers.
\<close>

definition Build :: "QuorumPB \<Rightarrow> string \<Rightarrow> QuorumState" where
  "Build quorum self_uuid =
     (case Build_loop self_uuid (peers quorum) (NON_PARTICIPANT, {}, '''') of
        (r, vp, l) \<Rightarrow>
          \<lparr>role = r, leader_uuid = l, voting_peers = vp,
           majority_size = int (card vp div 2 + 1),
           quorum_size = int (length (peers quorum)),
           config_seqno = seqno quorum\<rparr>)"

section \<open>Consensus metadata\<close>

record ConsensusMetadataPB =
  current_term :: u64
  voted_for :: "string option"
  committed_quorum :: QuorumPB

text \<open>
  Modelled from the spec: \<^verbatim>\<open>ConsensusMetadata\<close> (\<^verbatim>\<open>consensus_meta.h\<close> is not among the
  sources). \<open>pb\<close> is the in-memory record that \<^verbatim>\<open>pb()\<close> and \<^verbatim>\<open>mutable_pb()\<close> give
  access to, \<open>persisted\<close> the copy on disk. \<open>storage\<close> is what the storage layer
  answers to a flush: on \<open>OK\<close> the in-memory record is persisted atomically, on anything
  else the copy on disk stays as it is and the error is returned. \<open>flushes\<close> counts
  the calls of \<^verbatim>\<open>Flush()\<close>.
\<close>

record ConsensusMetadata =
  pb :: ConsensusMetadataPB
  persisted :: ConsensusMetadataPB
  storage :: Status
  flushes :: nat

definition Flush :: "ConsensusMetadata \<Rightarrow> Status \<times> ConsensusMetadata" where
  "Flush cm =
     (if storage cm = OK
      then (OK, cm\<lparr>persisted := pb cm, flushes := Suc (flushes cm)\<rparr>)
      else (storage cm, cm\<lparr>flushes := Suc (flushes cm)\<rparr>))"

section \<open>Collaborators of ReplicaState\<close>

text \<open>
  Modelled from the spec: the commit continuation of a round (an abstract class whose
  implementations are not among the sources). A continuation is what its
  \<^verbatim>\<open>ConsensusCommitted()\<close> returns.
\<close>

datatype ReplicaCommitContinuation = ReplicaCommitContinuation (ConsensusCommitted: Status)

text \<open>
  A \<^verbatim>\<open>ConsensusRound\<close>: \<open>round_id\<close> is \<^verbatim>\<open>replicate_msg()->id()\<close> (which \<^verbatim>\<open>id()\<close>
  returns too), \<open>round_op_type\<close> is \<^verbatim>\<open>replicate_msg()->op_type()\<close>, and
  \<open>continuation\<close> is \<open>None\<close> for the null pointer. The pending map holds rounds,
  never null pointers: \<^verbatim>\<open>AddPendingOperation\<close> dereferences the round it stores.
\<close>

record ConsensusRound =
  round_id :: OpId
  round_op_type :: OperationType
  continuation :: "ReplicaCommitContinuation option"
  replicate_callback :: FutureCallback

text \<open>
  Modelled from the spec: the callback pool. \<open>Submit\<close> gives the status the pool
  returns for the runnable wrapping a callback.
\<close>

datatype ThreadPool = ThreadPool (Submit: "FutureCallback \<Rightarrow> Status")

text \<open>The calls made on collaborators, in the order they are made.\<close>

datatype Event = ConsensusCommittedCall OpId | SubmitCall FutureCallback

text \<open>
  Modelled from the spec: \<^verbatim>\<open>OpIdWaiterSet\<close> (section 4.2; the class is not among the
  sources). The registered callbacks are kept in OpId order; \<open>fired\<close> lists the
  callbacks dispatched so far, oldest first.
\<close>

datatype MarkMode = MARK_ALL_OPS_BEFORE | MARK_ONLY_THIS_OP

record OpIdWaiterSet =
  callbacks :: "(OpId \<times> FutureCallback) list"
  fired :: "FutureCallback list"

fun insert_callback :: "OpId \<Rightarrow> FutureCallback \<Rightarrow> (OpId \<times> FutureCallback) list
    \<Rightarrow> (OpId \<times> FutureCallback) list" where
  "insert_callback k cb [] = [(k, cb)]"
| "insert_callback k cb (e # es) =
     (if OpIdLessThan k (fst e) then (k, cb) # e # es else e # insert_callback k cb es)"

definition RegisterCallback :: "OpId \<Rightarrow> FutureCallback \<Rightarrow> OpIdWaiterSet \<Rightarrow> OpIdWaiterSet" where
  "RegisterCallback op_id cb w = w\<lparr>callbacks := insert_callback op_id cb (callbacks w)\<rparr>"

definition marked :: "OpId \<Rightarrow> MarkMode \<Rightarrow> OpId \<times> FutureCallback \<Rightarrow> bool" where
  "marked op_id mode e =
     (case mode of
        MARK_ONLY_THIS_OP \<Rightarrow> fst e = op_id
      | MARK_ALL_OPS_BEFORE \<Rightarrow> OpIdCompare (fst e) op_id \<le> 0)"

definition MarkFinished :: "OpId \<Rightarrow> MarkMode \<Rightarrow> OpIdWaiterSet \<Rightarrow> OpIdWaiterSet" where
  "MarkFinished op_id mode w =
     \<lparr>callbacks = filter (\<lambda>e. \<not> marked op_id mode e) (callbacks w),
      fired = fired w @ map snd (filter (marked op_id mode) (callbacks w))\<rparr>"

text \<open>
  Modelled from the spec: \<^verbatim>\<open>CountDownLatch::CountDown\<close> (the latch is not among the
  sources): one less, and no effect on a latch that is already at zero.
\<close>

definition CountDown :: "nat \<Rightarrow> nat" where
  "CountDown n = (if n = 0 then 0 else n - 1)"

section \<open>The ordered map of pending rounds\<close>

text \<open>
  \<^verbatim>\<open>OpIdToRoundMap\<close> is a \<^verbatim>\<open>std::map\<close> keyed by OpId: an association list whose
  keys ascend strictly (\<open>map_wf\<close>). An iterator is a position in the list.
\<close>

definition map_wf :: "(OpId \<times> 'v) list \<Rightarrow> bool" where
  "map_wf m = sorted_wrt OpIdLessThan (map fst m)"

fun FindOrNull :: "(OpId \<times> 'v) list \<Rightarrow> OpId \<Rightarrow> 'v option" where
  "FindOrNull [] k = None"
| "FindOrNull (e # es) k = (if fst e = k then Some (snd e) else FindOrNull es k)"

text \<open>\<^verbatim>\<open>InsertOrDie\<close>: \<open>None\<close> is the failed \<^verbatim>\<open>CHECK\<close> on a key that is present.\<close>

fun InsertOrDie :: "(OpId \<times> 'v) list \<Rightarrow> OpId \<Rightarrow> 'v \<Rightarrow> (OpId \<times> 'v) list option" where
  "InsertOrDie [] k v = Some [(k, v)]"
| "InsertOrDie (e # es) k v =
     (if fst e = k then None
      else if OpIdLessThan k (fst e) then Some ((k, v) # e # es)
      else map_option (Cons e) (InsertOrDie es k v))"

definition erase_key :: "OpId \<Rightarrow> (OpId \<times> 'v) list \<Rightarrow> (OpId \<times> 'v) list" where
  "erase_key k m = filter (\<lambda>e. fst e \<noteq> k) m"

definition upper_bound :: "(OpId \<times> 'v) list \<Rightarrow> OpId \<Rightarrow> nat" where
  "upper_bound m k = length (takeWhile (\<lambda>e. \<not> OpIdLessThan k (fst e)) m)"

text \<open>The elements an iteration from \<open>iter\<close> up to, not including, \<open>end_iter\<close> visits.\<close>

definition iter_range :: "'a list \<Rightarrow> nat \<Rightarrow> nat \<Rightarrow> 'a list" where
  "iter_range m iter end_iter = take (end_iter - iter) (drop iter m)"

section \<open>ReplicaState\<close>

datatype State = kInitialized | kRunning | kChangingConfig | kShuttingDown | kShutDown

text \<open>
  The members of \<^verbatim>\<open>ReplicaState\<close>, without their trailing underscore. \<open>trace\<close> is
  not a member: it records the calls made on continuations and on the callback pool.
  The functions below are the \<^verbatim>\<open>...Unlocked\<close> bodies, run with \<^verbatim>\<open>update_lock_\<close> held.
  A result \<open>None\<close> is a failed \<^verbatim>\<open>CHECK\<close> or \<^verbatim>\<open>DCHECK\<close>, which ends the process.
\<close>

record ReplicaState =
  peer_uuid :: string
  callback_pool :: ThreadPool
  cmeta :: ConsensusMetadata
  active_quorum_state :: "QuorumState option"
  pending_quorum :: "QuorumPB option"
  next_index :: u64
  pending_txns :: "(OpId \<times> ConsensusRound) list"
  in_flight_commits :: "OpId set"
  in_flight_applies_latch :: nat
  received_op_id :: OpId
  replicated_op_id :: OpId
  last_triggered_apply :: OpId
  replicate_watchers :: OpIdWaiterSet
  commit_watchers :: OpIdWaiterSet
  state :: State
  trace :: "Event list"

definition mutable_pb :: "(ConsensusMetadataPB \<Rightarrow> ConsensusMetadataPB) \<Rightarrow> ReplicaState
    \<Rightarrow> ReplicaState" where
  "mutable_pb f s = s\<lparr>cmeta := (cmeta s)\<lparr>pb := f (pb (cmeta s))\<rparr>\<rparr>"

text \<open>\<^verbatim>\<open>RETURN_NOT_OK(cmeta_->Flush())\<close>: the status and the state after the flush.\<close>

definition FlushUnlocked :: "ReplicaState \<Rightarrow> Status \<times> ReplicaState" where
  "FlushUnlocked s = (case Flush (cmeta s) of (st, cm) \<Rightarrow> (st, s\<lparr>cmeta := cm\<rparr>))"

definition ResetActiveQuorumStateUnlocked :: "QuorumPB \<Rightarrow> ReplicaState \<Rightarrow> ReplicaState" where
  "ResetActiveQuorumStateUnlocked quorum s =
     s\<lparr>active_quorum_state := Some (Build quorum (peer_uuid s))\<rparr>"

definition IsQuorumChangePendingUnlocked :: "ReplicaState \<Rightarrow> bool" where
  "IsQuorumChangePendingUnlocked s = (pending_quorum s \<noteq> None)"

definition GetCommittedQuorumUnlocked :: "ReplicaState \<Rightarrow> QuorumPB" where
  "GetCommittedQuorumUnlocked s = committed_quorum (pb (cmeta s))"


definition GetCurrentTermUnlocked :: "ReplicaState \<Rightarrow> u64" where
  "GetCurrentTermUnlocked s = current_term (pb (cmeta s))"

definition HasVotedCurrentTermUnlocked :: "ReplicaState \<Rightarrow> bool" where
  "HasVotedCurrentTermUnlocked s = (voted_for (pb (cmeta s)) \<noteq> None)"

definition IncrementTermUnlocked :: "ReplicaState \<Rightarrow> Status \<times> ReplicaState" where
  "IncrementTermUnlocked s =
     (case FlushUnlocked
             (mutable_pb (\<lambda>p. p\<lparr>voted_for := None\<rparr>)
               (mutable_pb (\<lambda>p. p\<lparr>current_term := current_term (pb (cmeta s)) + 1\<rparr>) s)) of
        (st, s1) \<Rightarrow> if st \<noteq> OK then (st, s1) else (OK, s1))"

definition SetCurrentTermUnlocked :: "u64 \<Rightarrow> ReplicaState \<Rightarrow> Status \<times> ReplicaState" where
  "SetCurrentTermUnlocked new_term s =
     (if new_term < GetCurrentTermUnlocked s then (IllegalState, s)
      else
        (case FlushUnlocked
                (mutable_pb (\<lambda>p. p\<lparr>voted_for := None\<rparr>)
                  (mutable_pb (\<lambda>p. p\<lparr>current_term := new_term\<rparr>) s)) of
           (st, s1) \<Rightarrow> if st \<noteq> OK then (st, s1) else (OK, s1)))"

definition SetVotedForCurrentTermUnlocked :: "string \<Rightarrow> ReplicaState
    \<Rightarrow> Status \<times> ReplicaState" where
  "SetVotedForCurrentTermUnlocked uuid s =
     (case FlushUnlocked (mutable_pb (\<lambda>p. p\<lparr>voted_for := Some uuid\<rparr>) s) of
        (st, s1) \<Rightarrow> if st \<noteq> OK then (st, s1) else (OK, s1))"

definition IncrementConfigSeqNoUnlocked :: "ReplicaState \<Rightarrow> Status \<times> ReplicaState" where
  "IncrementConfigSeqNoUnlocked s =
     (case FlushUnlocked
             (mutable_pb (\<lambda>p. p\<lparr>committed_quorum :=
                QuorumPB (peers (committed_quorum p))
                  (seqno (committed_quorum (pb (cmeta s))) + 1)\<rparr>) s) of
        (st, s1) \<Rightarrow> if st \<noteq> OK then (st, s1) else (OK, s1))"

definition AddPendingOperation :: "ConsensusRound \<Rightarrow> ReplicaState
    \<Rightarrow> (Status \<times> ReplicaState) option" where
  "AddPendingOperation round s =
     (if state s \<noteq> kRunning \<and> round_op_type round \<noteq> CHANGE_CONFIG_OP
      then Some (IllegalState, s)
      else
        (case InsertOrDie (pending_txns s) (round_id round) round of
           None \<Rightarrow> None
         | Some m \<Rightarrow> Some (OK, s\<lparr>pending_txns := m\<rparr>)))"

text \<open>
  The body of the \<^verbatim>\<open>for\<close> loop of \<^verbatim>\<open>MarkConsensusCommittedUpToUnlocked\<close>, over the
  entries between the two iterators. Each \<^verbatim>\<open>RETURN_NOT_OK\<close> leaves the loop and the
  function with the state as it is at that point.
\<close>

fun commit_loop :: "(OpId \<times> ConsensusRound) list \<Rightarrow> ReplicaState
    \<Rightarrow> (Status \<times> ReplicaState) option" where
  "commit_loop [] s = Some (OK, s)"
| "commit_loop (e # rest) s =
     (let round = snd e in
      if round_id round \<in> in_flight_commits s then None
      else
        (let s1 = s\<lparr>in_flight_commits := insert (round_id round) (in_flight_commits s)\<rparr> in
         case continuation round of
           Some c \<Rightarrow>
             (let s2 = s1\<lparr>trace := trace s1 @ [ConsensusCommittedCall (round_id round)]\<rparr> in
              if ConsensusCommitted c \<noteq> OK then Some (ConsensusCommitted c, s2)
              else commit_loop rest s2)
         | None \<Rightarrow>
             (let s2 = s1\<lparr>trace := trace s1 @ [SubmitCall (replicate_callback round)]\<rparr> in
              if Submit (callback_pool s) (replicate_callback round) \<noteq> OK
              then Some (Submit (callback_pool s) (replicate_callback round), s2)
              else commit_loop rest s2)))"

definition MarkConsensusCommittedUpToUnlocked :: "OpId \<Rightarrow> ReplicaState
    \<Rightarrow> (Status \<times> ReplicaState) option" where
  "MarkConsensusCommittedUpToUnlocked id0 s =
     (if state s = kShuttingDown \<or> state s = kShutDown then Some (ServiceUnavailable, s)
      else if state s \<noteq> kRunning then Some (IllegalState, s)
      else if OpIdCompare (last_triggered_apply s) id0 \<ge> 0 then Some (OK, s)
      else
        (let iter = upper_bound (pending_txns s) (last_triggered_apply s);
             end_iter = upper_bound (pending_txns s) id0
         in case commit_loop (iter_range (pending_txns s) iter end_iter) s of
              None \<Rightarrow> None
            | Some (st, s1) \<Rightarrow>
                if st \<noteq> OK then Some (st, s1)
                else Some (OK, s1\<lparr>last_triggered_apply := id0\<rparr>)))"

definition GetCommittedOpIdUnlocked :: "ReplicaState \<Rightarrow> OpId" where
  "GetCommittedOpIdUnlocked s = last_triggered_apply s"

definition UpdateLastReplicatedOpIdUnlocked :: "OpId \<Rightarrow> ReplicaState \<Rightarrow> ReplicaState" where
  "UpdateLastReplicatedOpIdUnlocked op_id s =
     s\<lparr>replicated_op_id := op_id,
       replicate_watchers := MarkFinished op_id MARK_ALL_OPS_BEFORE (replicate_watchers s)\<rparr>"

definition GetLastReplicatedOpIdUnlocked :: "ReplicaState \<Rightarrow> OpId" where
  "GetLastReplicatedOpIdUnlocked s = replicated_op_id s"

definition UpdateCommittedOpIdUnlocked :: "OpId \<Rightarrow> ReplicaState \<Rightarrow> ReplicaState option" where
  "UpdateCommittedOpIdUnlocked committed_op_id s =
     (if committed_op_id \<notin> in_flight_commits s then None
      else
        (let s1 = s\<lparr>in_flight_commits := in_flight_commits s - {committed_op_id}\<rparr> in
         case FindOrNull (pending_txns s1) committed_op_id of
           None \<Rightarrow> None
         | Some round \<Rightarrow>
             Some (s1\<lparr>pending_txns := erase_key committed_op_id (pending_txns s1),
                      commit_watchers :=
                        MarkFinished committed_op_id MARK_ONLY_THIS_OP (commit_watchers s1)\<rparr>)))"

definition CountDownOutstandingCommitsIfShuttingDown :: "ReplicaState \<Rightarrow> ReplicaState" where
  "CountDownOutstandingCommitsIfShuttingDown s =
     (if state s = kShuttingDown
      then s\<lparr>in_flight_applies_latch := CountDown (in_flight_applies_latch s)\<rparr>
      else s)"

definition NewIdUnlocked :: "ReplicaState \<Rightarrow> OpId \<times> ReplicaState" where
  "NewIdUnlocked s =
     (OpId (GetCurrentTermUnlocked s) (next_index s), s\<lparr>next_index := next_index s + 1\<rparr>)"

definition CancelPendingOperation :: "OpId \<Rightarrow> ReplicaState \<Rightarrow> ReplicaState option" where
  "CancelPendingOperation id0 s =
     (if GetCurrentTermUnlocked s \<noteq> op_term id0 then None
      else if next_index s \<noteq> op_index id0 + 1 then None
      else
        (let s1 = s\<lparr>next_index := op_index id0\<rparr> in
         case FindOrNull (pending_txns s1) id0 of
           None \<Rightarrow> None
         | Some round \<Rightarrow> Some (s1\<lparr>pending_txns := erase_key id0 (pending_txns s1)\<rparr>)))"

text \<open>
  The constructor: the OpIds start as default protobuf messages (term 0, index 0), and
  the active quorum state is built from the committed quorum of the metadata.
\<close>

definition NewReplicaState :: "ThreadPool \<Rightarrow> string \<Rightarrow> ConsensusMetadata \<Rightarrow> ReplicaState" where
  "NewReplicaState pool uuid cm =
     ResetActiveQuorumStateUnlocked (committed_quorum (pb cm))
       \<lparr>peer_uuid = uuid, callback_pool = pool, cmeta = cm,
        active_quorum_state = None, pending_quorum = None, next_index = 0,
        pending_txns = [], in_flight_commits = {}, in_flight_applies_latch = 0,
        received_op_id = OpId 0 0, replicated_op_id = OpId 0 0,
        last_triggered_apply = OpId 0 0,
        replicate_watchers = \<lparr>callbacks = [], fired = []\<rparr>,
        commit_watchers = \<lparr>callbacks = [], fired = []\<rparr>,
        state = kInitialized, trace = []\<rparr>"

section \<open>What a commit advance triggers\<close>

text \<open>
  For stating what \<^verbatim>\<open>MarkConsensusCommittedUpToUnlocked\<close> does: \<open>eligible m lo hi\<close>
  are the entries of the pending map whose key is greater than \<open>lo\<close> and not greater
  than \<open>hi\<close>, in map order; \<open>trigger_status\<close> is the status that triggering the apply
  of a round returns (from its commit continuation, or from the callback pool when it
  has none) and \<open>trigger_event\<close> the call this makes; \<open>pending_wf\<close> says that the
  pending map is a map (its keys ascend strictly) and that each round is stored under
  its own id, as \<^verbatim>\<open>AddPendingOperation\<close> stores it.
\<close>

definition eligible :: "(OpId \<times> ConsensusRound) list \<Rightarrow> OpId \<Rightarrow> OpId
    \<Rightarrow> (OpId \<times> ConsensusRound) list" where
  "eligible m lo hi =
     filter (\<lambda>e. OpIdLessThan lo (fst e) \<and> \<not> OpIdLessThan hi (fst e)) m"

definition trigger_status :: "ThreadPool \<Rightarrow> ConsensusRound \<Rightarrow> Status" where
  "trigger_status pool round =
     (case continuation round of
        Some c \<Rightarrow> ConsensusCommitted c
      | None \<Rightarrow> Submit pool (replicate_callback round))"

definition trigger_event :: "ConsensusRound \<Rightarrow> Event" where
  "trigger_event round =
     (case continuation round of
        Some c \<Rightarrow> ConsensusCommittedCall (round_id round)
      | None \<Rightarrow> SubmitCall (replicate_callback round))"

definition pending_wf :: "ReplicaState \<Rightarrow> bool" where
  "pending_wf s =
     (map_wf (pending_txns s) \<and> list_all (\<lambda>e. round_id (snd e) = fst e) (pending_txns s))"

section \<open>Participant ops\<close>

datatype ParticipantOpType = UNKNOWN | BEGIN_TXN | BEGIN_COMMIT | FINALIZE_COMMIT | ABORT_TXN

text \<open>
  \<^verbatim>\<open>ParticipantOpPB\<close>. The optional \<^verbatim>\<open>finalized_commit_timestamp\<close> reads as 0 when it
  is not set, as a protobuf accessor does.
\<close>

record ParticipantOpPB =
  txn_id :: u64
  op_type :: ParticipantOpType
  opt_finalized_commit_timestamp :: "u64 option"

definition finalized_commit_timestamp :: "ParticipantOpPB \<Rightarrow> u64" where
  "finalized_commit_timestamp op =
     (case opt_finalized_commit_timestamp op of None \<Rightarrow> 0 | Some ts \<Rightarrow> ts)"

text \<open>
  Modelled from the spec: the MVCC op handle \<^verbatim>\<open>ScopedOp\<close> (\<^verbatim>\<open>mvcc.h\<close> is not among the
  sources): an in-progress write at a timestamp, which \<^verbatim>\<open>FinishApplying\<close> makes visible
  and \<^verbatim>\<open>Abort\<close> aborts.
\<close>

datatype MvccOpState = IN_PROGRESS | FINISHED | MVCC_ABORTED

record ScopedOp =
  mvcc_timestamp :: u64
  mvcc_state :: MvccOpState

definition FinishApplying :: "ScopedOp \<Rightarrow> ScopedOp" where
  "FinishApplying m = m\<lparr>mvcc_state := FINISHED\<rparr>"

definition Abort :: "ScopedOp \<Rightarrow> ScopedOp" where
  "Abort m = m\<lparr>mvcc_state := MVCC_ABORTED\<rparr>"

text \<open>
  Modelled from the spec: the participant transaction \<^verbatim>\<open>Txn\<close> (\<^verbatim>\<open>txn_participant.h\<close> is
  not among the sources): the state of section 4.5.1, the commit-op slot, and the
  mutators, each of which moves the state and is recorded with its arguments in
  \<open>mutations\<close>.
\<close>

datatype TxnState = kNone | kOpen | kCommitInProgress | kCommitted | kAborted

datatype TxnMutation =
  BeginTransactionCall OpId | BeginCommitCall OpId | FinalizeCommitCall OpId u64
  | AbortTransactionCall OpId

record Txn =
  txn_state :: TxnState
  commit_timestamp :: "u64 option"
  commit_op :: "ScopedOp option"
  mutations :: "TxnMutation list"

definition BeginTransaction :: "OpId \<Rightarrow> Txn \<Rightarrow> Txn" where
  "BeginTransaction op_id t =
     t\<lparr>txn_state := kOpen, mutations := mutations t @ [BeginTransactionCall op_id]\<rparr>"

definition BeginCommit :: "OpId \<Rightarrow> Txn \<Rightarrow> Txn" where
  "BeginCommit op_id t =
     t\<lparr>txn_state := kCommitInProgress, mutations := mutations t @ [BeginCommitCall op_id]\<rparr>"

definition FinalizeCommit :: "OpId \<Rightarrow> u64 \<Rightarrow> Txn \<Rightarrow> Txn" where
  "FinalizeCommit op_id ts t =
     t\<lparr>txn_state := kCommitted, commit_timestamp := Some ts,
       mutations := mutations t @ [FinalizeCommitCall op_id ts]\<rparr>"

definition AbortTransaction :: "OpId \<Rightarrow> Txn \<Rightarrow> Txn" where
  "AbortTransaction op_id t =
     t\<lparr>txn_state := kAborted, mutations := mutations t @ [AbortTransactionCall op_id]\<rparr>"

definition SetCommitOp :: "ScopedOp option \<Rightarrow> Txn \<Rightarrow> Txn" where
  "SetCommitOp m t = t\<lparr>commit_op := m\<rparr>"

datatype CommitMsg = CommitMsg (commit_op_type: OperationType)

text \<open>
  \<^verbatim>\<open>ParticipantOpState\<close>: \<open>txn\<close> is the \<^verbatim>\<open>txn_\<close> pointer (\<open>None\<close> when null),
  \<open>begin_commit_mvcc_op\<close> the MVCC op the state owns between Start and Apply.
  \<open>start_applying_calls\<close> counts the calls of \<^verbatim>\<open>Tablet::StartApplying\<close> on this
  state; the tablet is not among the sources and what the call does inside the MVCC
  manager is not modelled.
\<close>

record ParticipantOpState =
  request :: ParticipantOpPB
  op_id :: OpId
  txn :: "Txn option"
  begin_commit_mvcc_op :: "ScopedOp option"
  start_applying_calls :: nat

definition StartApplying :: "ParticipantOpState \<Rightarrow> ParticipantOpState" where
  "StartApplying st = st\<lparr>start_applying_calls := Suc (start_applying_calls st)\<rparr>"

text \<open>
  \<^verbatim>\<open>ParticipantOpState::PerformOp\<close>: the status, the state and the commit message
  written through \<^verbatim>\<open>commit_msg\<close> (\<open>None\<close> when nothing was written). The result is
  \<open>None\<close> when \<^verbatim>\<open>txn_\<close> is dereferenced while null.
\<close>

definition PerformOp :: "OpId \<Rightarrow> ParticipantOpState
    \<Rightarrow> (Status \<times> ParticipantOpState \<times> CommitMsg option) option" where
  "PerformOp opid st =
     (case op_type (request st) of
        BEGIN_TXN \<Rightarrow>
          (case txn st of
             None \<Rightarrow> None
           | Some t \<Rightarrow>
               Some (OK, st\<lparr>txn := Some (BeginTransaction opid t)\<rparr>,
                     Some (CommitMsg PARTICIPANT_OP)))
      | BEGIN_COMMIT \<Rightarrow>
          (case txn st of
             None \<Rightarrow> None
           | Some t \<Rightarrow>
               Some (OK, st\<lparr>txn := Some (BeginCommit opid t)\<rparr>,
                     Some (CommitMsg PARTICIPANT_OP)))
      | FINALIZE_COMMIT \<Rightarrow>
          (case txn st of
             None \<Rightarrow> None
           | Some t \<Rightarrow>
               (let t1 = FinalizeCommit opid (finalized_commit_timestamp (request st)) t;
                    t2 = (case commit_op t1 of
                            Some m \<Rightarrow> t1\<lparr>commit_op := Some (FinishApplying m)\<rparr>
                          | None \<Rightarrow> t1)
                in Some (OK, st\<lparr>txn := Some t2\<rparr>, Some (CommitMsg PARTICIPANT_OP))))
      | ABORT_TXN \<Rightarrow>
          (case txn st of
             None \<Rightarrow> None
           | Some t \<Rightarrow>
               (let t1 = AbortTransaction opid t;
                    t2 = (case commit_op t1 of
                            Some m \<Rightarrow> t1\<lparr>commit_op := Some (Abort m)\<rparr>
                          | None \<Rightarrow> t1)
                in Some (OK, st\<lparr>txn := Some t2\<rparr>, Some (CommitMsg PARTICIPANT_OP))))
      | UNKNOWN \<Rightarrow> Some (InvalidArgument, st, None))"

text \<open>
  \<^verbatim>\<open>ReleaseMvccOpToTxn\<close>: both \<^verbatim>\<open>DCHECK\<close>s, then the MVCC op moves from the op state
  into the transaction's commit-op slot.
\<close>

definition ReleaseMvccOpToTxn :: "ParticipantOpState \<Rightarrow> ParticipantOpState option" where
  "ReleaseMvccOpToTxn st =
     (if op_type (request st) \<noteq> BEGIN_COMMIT then None
      else if begin_commit_mvcc_op st = None then None
      else
        (case txn st of
           None \<Rightarrow> None
         | Some t \<Rightarrow>
             Some (st\<lparr>txn := Some (SetCommitOp (begin_commit_mvcc_op st) t),
                      begin_commit_mvcc_op := None\<rparr>)))"

text \<open>\<^verbatim>\<open>ParticipantOp::Apply\<close>; \<^verbatim>\<open>CHECK_OK\<close> ends the process on a status that is not OK.\<close>

definition Apply :: "ParticipantOpState
    \<Rightarrow> (Status \<times> ParticipantOpState \<times> CommitMsg option) option" where
  "Apply st =
     (let st1 = StartApplying st in
      case PerformOp (op_id st1) st1 of
        None \<Rightarrow> None
      | Some (s, st2, commit_msg) \<Rightarrow>
          if s \<noteq> OK then None
          else if op_type (request st2) = BEGIN_COMMIT
          then (case ReleaseMvccOpToTxn st2 of
                  None \<Rightarrow> None
                | Some st3 \<Rightarrow> Some (OK, st3, commit_msg))
          else Some (OK, st2, commit_msg))"

section \<open>Sequences of term changes and example states\<close>

text \<open>
  A call of \<^verbatim>\<open>SetCurrentTermUnlocked\<close> or of \<^verbatim>\<open>IncrementTermUnlocked\<close>;
  \<open>observed_terms\<close> lists the current term before the first call and after each call
  of a sequence, and \<open>no_wrap\<close> says that no increment of the sequence is made at the
  largest term \<open>2 ^ 64 - 1\<close>.
\<close>

datatype TermCall = CallSetCurrentTerm u64 | CallIncrementTerm

fun term_call :: "TermCall \<Rightarrow> ReplicaState \<Rightarrow> Status \<times> ReplicaState" where
  "term_call (CallSetCurrentTerm new_term) s = SetCurrentTermUnlocked new_term s"
| "term_call CallIncrementTerm s = IncrementTermUnlocked s"

fun observed_terms :: "TermCall list \<Rightarrow> ReplicaState \<Rightarrow> u64 list" where
  "observed_terms [] s = [GetCurrentTermUnlocked s]"
| "observed_terms (c # cs) s =
     GetCurrentTermUnlocked s # observed_terms cs (snd (term_call c s))"

fun no_wrap :: "TermCall list \<Rightarrow> ReplicaState \<Rightarrow> bool" where
  "no_wrap [] s = True"
| "no_wrap (c # cs) s =
     ((c = CallIncrementTerm \<longrightarrow> GetCurrentTermUnlocked s \<noteq> - 1)
      \<and> no_wrap cs (snd (term_call c s)))"

text \<open>
  Example states: a replica \<open>A\<close>, leader of a quorum of three, constructed over
  metadata with a given term and vote and a storage layer that answers every flush
  with a given status; its callback pool accepts every runnable.
\<close>

definition example_quorum :: QuorumPB where
  "example_quorum =
     QuorumPB [QuorumPeerPB ''A'' LEADER, QuorumPeerPB ''B'' FOLLOWER,
               QuorumPeerPB ''C'' FOLLOWER] 1"

definition example_cmeta :: "u64 \<Rightarrow> string option \<Rightarrow> Status \<Rightarrow> ConsensusMetadata" where
  "example_cmeta t v st =
     \<lparr>pb = \<lparr>current_term = t, voted_for = v, committed_quorum = example_quorum\<rparr>,
      persisted = \<lparr>current_term = t, voted_for = v, committed_quorum = example_quorum\<rparr>,
      storage = st, flushes = 0\<rparr>"

definition example_state :: "u64 \<Rightarrow> string option \<Rightarrow> Status \<Rightarrow> ReplicaState" where
  "example_state t v st = NewReplicaState (ThreadPool (\<lambda>cb. OK)) ''A'' (example_cmeta t v st)"

text \<open>A write round with a given id and continuation.\<close>

definition example_round :: "OpId \<Rightarrow> ReplicaCommitContinuation option \<Rightarrow> ConsensusRound" where
  "example_round k c =
     \<lparr>round_id = k, round_op_type = WRITE_OP, continuation = c, replicate_callback = 0\<rparr>"

text \<open>
  A replica that is shutting down with one apply in flight, op (5, 10), and commit
  watchers registered for (5, 10) and for (5, 11).
\<close>

definition draining_state :: ReplicaState where
  "draining_state =
     (example_state 5 None OK)
       \<lparr>state := kShuttingDown,
        pending_txns := [(OpId 5 10, example_round (OpId 5 10) None)],
        in_flight_commits := {OpId 5 10},
        in_flight_applies_latch := 1,
        commit_watchers := \<lparr>callbacks = [(OpId 5 10, 1), (OpId 5 11, 2)], fired = []\<rparr>\<rparr>"

text \<open>A running leader in term 5 whose next index is 10, with op (5, 9) pending.\<close>

definition leading_state :: ReplicaState where
  "leading_state =
     (example_state 5 None OK)
       \<lparr>state := kRunning, next_index := 10,
        pending_txns := [(OpId 5 9, example_round (OpId 5 9) None)]\<rparr>"

text \<open>
  The state of a FINALIZE_COMMIT op with finalized commit timestamp 105 that has
  acquired its transaction, which is committing and holds the given commit op.
\<close>

definition example_op_state :: "ScopedOp option \<Rightarrow> ParticipantOpState" where
  "example_op_state m =
     \<lparr>request = \<lparr>txn_id = 1, op_type = FINALIZE_COMMIT,
                 opt_finalized_commit_timestamp = Some 105\<rparr>,
      op_id = OpId 5 12,
      txn = Some \<lparr>txn_state = kCommitInProgress, commit_timestamp = None, commit_op = m,
                  mutations = []\<rparr>,
      begin_commit_mvcc_op = None, start_applying_calls = 0\<rparr>"

text \<open>
  Scenario S1 of the spec: a running leader in term 5 that has marked everything up to
  (5, 9) and has the ops (5, 10), (5, 11) and (5, 12) pending. The first two have a
  commit continuation, the last one only a replicate callback; the continuation of
  (5, 11) returns the given status.
\<close>

definition batch_state :: "Status \<Rightarrow> ReplicaState" where
  "batch_state st =
     (example_state 5 None OK)
       \<lparr>state := kRunning, next_index := 13,
        received_op_id := OpId 5 12, replicated_op_id := OpId 5 12,
        last_triggered_apply := OpId 5 9,
        pending_txns :=
          [(OpId 5 10, example_round (OpId 5 10) (Some (ReplicaCommitContinuation OK))),
           (OpId 5 11, example_round (OpId 5 11) (Some (ReplicaCommitContinuation st))),
           (OpId 5 12, example_round (OpId 5 12) None)]\<rparr>"

section \<open>QuorumState::Build\<close>

lemma Build_loop_voting:
  "fst (snd (Build_loop self ps (r, vp, l))) =
     vp \<union> permanent_uuid ` {p \<in> set ps. pb_role p = LEADER \<or> pb_role p = FOLLOWER}"
  by (induction ps arbitrary: r vp l) auto

lemma Build_loop_role:
  "fst (Build_loop self ps (r, vp, l)) =
     (case filter (\<lambda>p. permanent_uuid p = self) ps of [] \<Rightarrow> r | q # qs \<Rightarrow> pb_role (last (q # qs)))"
  by (induction ps arbitrary: r vp l) (auto split: list.splits)

lemma Build_loop_leader:
  "snd (snd (Build_loop self ps (r, vp, l))) =
     (case filter (\<lambda>p. pb_role p = LEADER) ps of [] \<Rightarrow> l | q # qs \<Rightarrow> permanent_uuid (last (q # qs)))"
  by (induction ps arbitrary: r vp l) (auto split: list.splits)

lemma Build_fields:
  "voting_peers (Build q self) = fst (snd (Build_loop self (peers q) (NON_PARTICIPANT, {}, [])))"
  "role (Build q self) = fst (Build_loop self (peers q) (NON_PARTICIPANT, {}, []))"
  "leader_uuid (Build q self) = snd (snd (Build_loop self (peers q) (NON_PARTICIPANT, {}, [])))"
  "majority_size (Build q self) = int (card (voting_peers (Build q self)) div 2 + 1)"
  "quorum_size (Build q self) = int (length (peers q))"
  "config_seqno (Build q self) = seqno q"
  by (simp_all add: Build_def split: prod.splits)

lemma last_filter_in:
  "filter P ps = q # qs \<Longrightarrow> last (q # qs) \<in> set ps \<and> P (last (q # qs))"
proof -
  assume a: "filter P ps = q # qs"
  have "last (q # qs) \<in> set (filter P ps)"
    unfolding a by (rule last_in_set) simp
  then show ?thesis by simp
qed

text \<open>
  Claim C5: for every quorum and every self uuid, \<^verbatim>\<open>QuorumState::Build\<close> returns a
  snapshot (it is a total function, so it never fails) in which: the voting peers are
  exactly the uuids of the peers whose role is LEADER or FOLLOWER; the leader uuid is
  the uuid of a peer with role LEADER, and empty when there is none; the role is the
  role of a peer whose uuid is the self uuid, and NON_PARTICIPANT when there is none;
  the majority size is half the number of voting peers, rounded down, plus one (so 1
  for an empty voting set); the quorum size is the number of listed peers; and the
  config seqno is the seqno of the quorum.
\<close>

theorem Build_snapshot:
  "voting_peers (Build q self) =
     permanent_uuid ` {p \<in> set (peers q). pb_role p = LEADER \<or> pb_role p = FOLLOWER}
   \<and> (if \<exists>p \<in> set (peers q). pb_role p = LEADER
      then \<exists>p \<in> set (peers q). pb_role p = LEADER \<and> leader_uuid (Build q self) = permanent_uuid p
      else leader_uuid (Build q self) = [])
   \<and> (if \<exists>p \<in> set (peers q). permanent_uuid p = self
      then \<exists>p \<in> set (peers q). permanent_uuid p = self \<and> role (Build q self) = pb_role p
      else role (Build q self) = NON_PARTICIPANT)
   \<and> majority_size (Build q self) = int (card (voting_peers (Build q self)) div 2 + 1)
   \<and> (voting_peers (Build q self) = {} \<longrightarrow> majority_size (Build q self) = 1)
   \<and> quorum_size (Build q self) = int (length (peers q))
   \<and> config_seqno (Build q self) = seqno q"
proof -
  have v: "voting_peers (Build q self) =
     permanent_uuid ` {p \<in> set (peers q). pb_role p = LEADER \<or> pb_role p = FOLLOWER}"
    by (simp add: Build_fields(1) Build_loop_voting)
  have l: "if \<exists>p \<in> set (peers q). pb_role p = LEADER
      then \<exists>p \<in> set (peers q). pb_role p = LEADER \<and> leader_uuid (Build q self) = permanent_uuid p
      else leader_uuid (Build q self) = []"
  proof (cases "filter (\<lambda>p. pb_role p = LEADER) (peers q)")
    case Nil
    then have "\<not> (\<exists>p \<in> set (peers q). pb_role p = LEADER)"
      by (simp add: filter_empty_conv)
    with Nil show ?thesis by (simp add: Build_fields(3) Build_loop_leader)
  next
    case (Cons a as)
    from last_filter_in [OF Cons] Cons show ?thesis
      by (auto simp: Build_fields(3) Build_loop_leader)
  qed
  have r: "if \<exists>p \<in> set (peers q). permanent_uuid p = self
      then \<exists>p \<in> set (peers q). permanent_uuid p = self \<and> role (Build q self) = pb_role p
      else role (Build q self) = NON_PARTICIPANT"
  proof (cases "filter (\<lambda>p. permanent_uuid p = self) (peers q)")
    case Nil
    then have "\<not> (\<exists>p \<in> set (peers q). permanent_uuid p = self)"
      by (simp add: filter_empty_conv)
    with Nil show ?thesis by (simp add: Build_fields(2) Build_loop_role)
  next
    case (Cons a as)
    from last_filter_in [OF Cons] Cons show ?thesis
      by (auto simp: Build_fields(2) Build_loop_role)
  qed
  have m: "majority_size (Build q self) = int (card (voting_peers (Build q self)) div 2 + 1)"
    by (rule Build_fields(4))
  have e: "voting_peers (Build q self) = {} \<longrightarrow> majority_size (Build q self) = 1"
    by (simp add: Build_fields(4))
  have z: "quorum_size (Build q self) = int (length (peers q))"
    by (rule Build_fields(5))
  have c: "config_seqno (Build q self) = seqno q"
    by (rule Build_fields(6))
  from v l r m e z c show ?thesis
    by blast
qed

theorem Build_snapshot_witness:
  "(\<exists>p \<in> set (peers (QuorumPB [QuorumPeerPB ''a'' LEADER, QuorumPeerPB ''b'' FOLLOWER,
        QuorumPeerPB ''c'' LEARNER] 7)). pb_role p = LEADER)
   \<and> (\<exists>p \<in> set (peers (QuorumPB [QuorumPeerPB ''a'' LEADER, QuorumPeerPB ''b'' FOLLOWER,
        QuorumPeerPB ''c'' LEARNER] 7)). permanent_uuid p = ''b'')
   \<and> voting_peers (Build (QuorumPB [QuorumPeerPB ''a'' LEADER, QuorumPeerPB ''b'' FOLLOWER,
        QuorumPeerPB ''c'' LEARNER] 7) ''b'') = {''a'', ''b''}
   \<and> leader_uuid (Build (QuorumPB [QuorumPeerPB ''a'' LEADER, QuorumPeerPB ''b'' FOLLOWER,
        QuorumPeerPB ''c'' LEARNER] 7) ''b'') = ''a''
   \<and> role (Build (QuorumPB [QuorumPeerPB ''a'' LEADER, QuorumPeerPB ''b'' FOLLOWER,
        QuorumPeerPB ''c'' LEARNER] 7) ''b'') = FOLLOWER
   \<and> majority_size (Build (QuorumPB [QuorumPeerPB ''a'' LEADER, QuorumPeerPB ''b'' FOLLOWER,
        QuorumPeerPB ''c'' LEARNER] 7) ''b'') = 2
   \<and> quorum_size (Build (QuorumPB [QuorumPeerPB ''a'' LEADER, QuorumPeerPB ''b'' FOLLOWER,
        QuorumPeerPB ''c'' LEARNER] 7) ''b'') = 3
   \<and> config_seqno (Build (QuorumPB [QuorumPeerPB ''a'' LEADER, QuorumPeerPB ''b'' FOLLOWER,
        QuorumPeerPB ''c'' LEARNER] 7) ''b'') = 7"
proof -
  let ?q = "QuorumPB [QuorumPeerPB ''a'' LEADER, QuorumPeerPB ''b'' FOLLOWER,
        QuorumPeerPB ''c'' LEARNER] 7"
  note th = Build_snapshot [of ?q "''b''"]
  have v: "voting_peers (Build ?q ''b'') = {''a'', ''b''}"
    by (auto simp: Build_def)
  have m: "majority_size (Build ?q ''b'') = 2"
    using th unfolding v by simp
  have l: "leader_uuid (Build ?q ''b'') = ''a''"
    using th by simp
  have r: "role (Build ?q ''b'') = FOLLOWER"
    using th by simp
  from th v m l r show ?thesis by simp
qed

section \<open>Term, vote and quorum mutators\<close>

lemmas term_defs =
  SetCurrentTermUnlocked_def IncrementTermUnlocked_def SetVotedForCurrentTermUnlocked_def
  IncrementConfigSeqNoUnlocked_def FlushUnlocked_def Flush_def mutable_pb_def
  GetCurrentTermUnlocked_def HasVotedCurrentTermUnlocked_def

lemmas example_defs =
  example_state_def example_cmeta_def example_quorum_def NewReplicaState_def
  ResetActiveQuorumStateUnlocked_def




lemma SetCurrentTerm_mono:
  "GetCurrentTermUnlocked s \<le> GetCurrentTermUnlocked (snd (SetCurrentTermUnlocked new_term s))"
  by (simp add: term_defs not_less)

lemma IncrementTerm_mono:
  assumes "GetCurrentTermUnlocked s \<noteq> - 1"
  shows "GetCurrentTermUnlocked s \<le> GetCurrentTermUnlocked (snd (IncrementTermUnlocked s))"
proof -
  have "\<not> current_term (pb (cmeta s)) + 1 \<le> current_term (pb (cmeta s))"
    using assms by (simp add: inc_less_eq_self_iff_eq GetCurrentTermUnlocked_def)
  then show ?thesis by (simp add: term_defs)
qed

lemma term_call_mono:
  "(c = CallIncrementTerm \<longrightarrow> GetCurrentTermUnlocked s \<noteq> - 1) \<Longrightarrow>
   GetCurrentTermUnlocked s \<le> GetCurrentTermUnlocked (snd (term_call c s))"
  by (cases c) (simp_all add: SetCurrentTerm_mono IncrementTerm_mono)

lemma observed_terms_sorted:
  "no_wrap cs s \<Longrightarrow>
   sorted (observed_terms cs s) \<and> (\<forall>t \<in> set (observed_terms cs s). GetCurrentTermUnlocked s \<le> t)"
proof (induction cs arbitrary: s)
  case Nil
  then show ?case by simp
next
  case (Cons c cs)
  let ?s' = "snd (term_call c s)"
  from Cons.prems have step: "GetCurrentTermUnlocked s \<le> GetCurrentTermUnlocked ?s'"
    and rest: "no_wrap cs ?s'"
    by (simp_all add: term_call_mono)
  from Cons.IH [OF rest] step show ?case
    by (auto intro: order_trans)
qed

text \<open>
  Claim C3, as the code has it: over every sequence of \<^verbatim>\<open>SetCurrentTermUnlocked\<close>
  and \<^verbatim>\<open>IncrementTermUnlocked\<close> calls in which no increment is made at the largest
  term \<open>2 ^ 64 - 1\<close>, the observed current term never decreases; and a call of
  \<^verbatim>\<open>SetCurrentTermUnlocked\<close> with a term lower than the current one returns
  IllegalState and leaves the whole state, the flush count and the persisted metadata
  included, as it was. At the largest term the increment wraps around to 0,
  as the counterexample after the theorem shows.
\<close>

theorem term_monotonic:
  "(no_wrap cs s \<longrightarrow> sorted (observed_terms cs s))
   \<and> (new_term < GetCurrentTermUnlocked s \<longrightarrow>
        SetCurrentTermUnlocked new_term s = (IllegalState, s))"
  by (simp add: observed_terms_sorted) (simp add: SetCurrentTermUnlocked_def)

theorem term_monotonic_witness:
  "no_wrap [CallSetCurrentTerm 7, CallIncrementTerm, CallSetCurrentTerm 3]
      (example_state 5 None OK)
   \<and> observed_terms [CallSetCurrentTerm 7, CallIncrementTerm, CallSetCurrentTerm 3]
      (example_state 5 None OK) = [5, 7, 8, 8]
   \<and> sorted (observed_terms [CallSetCurrentTerm 7, CallIncrementTerm, CallSetCurrentTerm 3]
      (example_state 5 None OK))
   \<and> (3::u64) < GetCurrentTermUnlocked (example_state 5 None OK)
   \<and> fst (SetCurrentTermUnlocked 3 (example_state 5 None OK)) = IllegalState
   \<and> flushes (cmeta (snd (SetCurrentTermUnlocked 3 (example_state 5 None OK)))) = 0"
proof -
  let ?cs = "[CallSetCurrentTerm 7, CallIncrementTerm, CallSetCurrentTerm 3]"
  let ?s = "example_state 5 None OK"
  have o: "observed_terms ?cs ?s = [5, 7, 8, 8]"
    by (simp add: term_defs example_defs)
  have n: "no_wrap ?cs ?s"
    by (simp add: term_defs example_defs)
  have l: "(3::u64) < GetCurrentTermUnlocked ?s" "flushes (cmeta ?s) = 0"
    by (simp_all add: term_defs example_defs)
  from term_monotonic [of ?cs ?s 3] n o l show ?thesis
    by simp
qed

theorem term_wrap_counterexample:
  "observed_terms [CallIncrementTerm] (example_state (- 1) None OK) = [- 1, 0]
   \<and> \<not> sorted (observed_terms [CallIncrementTerm] (example_state (- 1) None OK))"
  by (simp add: term_defs example_defs)

text \<open>
  What \<^verbatim>\<open>SetCurrentTermUnlocked\<close> does to the vote: the guard rejects only a term
  lower than the current one, and \<^verbatim>\<open>clear_voted_for()\<close> follows without a further
  test, so every call that passes the guard clears the vote, a call with the current
  term included.
\<close>

lemma SetCurrentTerm_clears_vote:
  "\<not> new_term < GetCurrentTermUnlocked s \<Longrightarrow>
   voted_for (pb (cmeta (snd (SetCurrentTermUnlocked new_term s)))) = None
   \<and> \<not> HasVotedCurrentTermUnlocked (snd (SetCurrentTermUnlocked new_term s))
   \<and> (fst (SetCurrentTermUnlocked new_term s) = OK \<longleftrightarrow> storage (cmeta s) = OK)"
  by (simp add: term_defs)

text \<open>
  Claim C4: a successful \<^verbatim>\<open>SetCurrentTermUnlocked\<close> clears the vote if and only if
  the new term is strictly greater than the current one, and leaves an existing vote
  unchanged when the new term equals the current one. The code breaks the second
  half. A replica in term 5 that has voted for \<open>B\<close>, in memory and on disk, is asked
  to set the term to 5: the call returns OK, the term is still 5, and the vote is gone
  in memory and on disk. A vote for \<open>C\<close> is then recorded and persisted, so that
  two different votes have been persisted in term 5.
\<close>

theorem same_term_vote_erased:
  "GetCurrentTermUnlocked (example_state 5 (Some ''B'') OK) = 5
   \<and> HasVotedCurrentTermUnlocked (example_state 5 (Some ''B'') OK)
   \<and> voted_for (pb (cmeta (example_state 5 (Some ''B'') OK))) = Some ''B''
   \<and> voted_for (persisted (cmeta (example_state 5 (Some ''B'') OK))) = Some ''B''
   \<and> fst (SetCurrentTermUnlocked 5 (example_state 5 (Some ''B'') OK)) = OK
   \<and> GetCurrentTermUnlocked (snd (SetCurrentTermUnlocked 5 (example_state 5 (Some ''B'') OK)))
       = 5
   \<and> voted_for (pb (cmeta (snd (SetCurrentTermUnlocked 5 (example_state 5 (Some ''B'') OK)))))
       = None
   \<and> voted_for (persisted (cmeta (snd (SetCurrentTermUnlocked 5
        (example_state 5 (Some ''B'') OK))))) = None
   \<and> fst (SetVotedForCurrentTermUnlocked ''C''
        (snd (SetCurrentTermUnlocked 5 (example_state 5 (Some ''B'') OK)))) = OK
   \<and> current_term (persisted (cmeta (snd (SetVotedForCurrentTermUnlocked ''C''
        (snd (SetCurrentTermUnlocked 5 (example_state 5 (Some ''B'') OK))))))) = 5
   \<and> voted_for (persisted (cmeta (snd (SetVotedForCurrentTermUnlocked ''C''
        (snd (SetCurrentTermUnlocked 5 (example_state 5 (Some ''B'') OK))))))) = Some ''C''"
  by (simp add: term_defs example_defs)

section \<open>Watermarks, pending operations and ids\<close>

text \<open>
  Claim C8, as the code has it: \<^verbatim>\<open>UpdateLastReplicatedOpIdUnlocked\<close> accepts every
  OpId and sets the replicated watermark to it, so the watermark after the call is
  greater than or equal to the one before exactly when the argument is; a lower
  argument lowers the watermark, as the counterexample after the theorem shows.
\<close>

theorem replicated_watermark_set:
  "GetLastReplicatedOpIdUnlocked (UpdateLastReplicatedOpIdUnlocked opid s) = opid
   \<and> (OpIdCompare (GetLastReplicatedOpIdUnlocked s)
         (GetLastReplicatedOpIdUnlocked (UpdateLastReplicatedOpIdUnlocked opid s)) \<le> 0
       \<longleftrightarrow> OpIdCompare (GetLastReplicatedOpIdUnlocked s) opid \<le> 0)"
  by (simp add: GetLastReplicatedOpIdUnlocked_def UpdateLastReplicatedOpIdUnlocked_def)

theorem replicated_watermark_set_witness:
  "GetLastReplicatedOpIdUnlocked
     (UpdateLastReplicatedOpIdUnlocked (OpId 5 12)
        ((example_state 5 None OK)\<lparr>replicated_op_id := OpId 5 10\<rparr>)) = OpId 5 12
   \<and> OpIdCompare (OpId 5 10) (OpId 5 12) \<le> 0"
  using replicated_watermark_set [of "OpId 5 12"
      "(example_state 5 None OK)\<lparr>replicated_op_id := OpId 5 10\<rparr>"]
  by (simp add: OpIdCompare_def)

theorem replicated_watermark_counterexample:
  "GetLastReplicatedOpIdUnlocked ((example_state 5 None OK)\<lparr>replicated_op_id := OpId 5 10\<rparr>)
     = OpId 5 10
   \<and> GetLastReplicatedOpIdUnlocked
       (UpdateLastReplicatedOpIdUnlocked (OpId 5 3)
          ((example_state 5 None OK)\<lparr>replicated_op_id := OpId 5 10\<rparr>)) = OpId 5 3
   \<and> OpIdCompare (OpId 5 10) (OpId 5 3) = 1"
  by (simp add: GetLastReplicatedOpIdUnlocked_def UpdateLastReplicatedOpIdUnlocked_def
      OpIdCompare_def)

text \<open>
  Claim C6, as the code has it: for an op id that is in the in-flight set and in the
  pending map, \<^verbatim>\<open>UpdateCommittedOpIdUnlocked\<close> returns, removes the id from both,
  fires and removes the commit watchers registered for exactly this id and no other,
  and leaves the lifecycle state and the drain latch as they are. The latch is counted
  down by the separate \<^verbatim>\<open>CountDownOutstandingCommitsIfShuttingDown\<close>, by one (and
  not below zero) when the state is shutting down and not at all otherwise.
\<close>

theorem update_committed_op_id:
  assumes "op \<in> in_flight_commits s" and "FindOrNull (pending_txns s) op \<noteq> None"
  shows "\<exists>s'. UpdateCommittedOpIdUnlocked op s = Some s'
     \<and> in_flight_commits s' = in_flight_commits s - {op}
     \<and> pending_txns s' = filter (\<lambda>e. fst e \<noteq> op) (pending_txns s)
     \<and> fired (commit_watchers s') =
         fired (commit_watchers s)
         @ map snd (filter (\<lambda>e. fst e = op) (callbacks (commit_watchers s)))
     \<and> callbacks (commit_watchers s') =
         filter (\<lambda>e. fst e \<noteq> op) (callbacks (commit_watchers s))
     \<and> state s' = state s
     \<and> in_flight_applies_latch s' = in_flight_applies_latch s
     \<and> in_flight_applies_latch (CountDownOutstandingCommitsIfShuttingDown s') =
         (if state s = kShuttingDown then in_flight_applies_latch s - 1
          else in_flight_applies_latch s)"
proof -
  from assms(2) obtain round where f: "FindOrNull (pending_txns s) op = Some round"
    by blast
  let ?s' = "s\<lparr>in_flight_commits := in_flight_commits s - {op},
      pending_txns := erase_key op (pending_txns s),
      commit_watchers := MarkFinished op MARK_ONLY_THIS_OP (commit_watchers s)\<rparr>"
  have r: "UpdateCommittedOpIdUnlocked op s = Some ?s'"
    using assms(1) f by (simp add: UpdateCommittedOpIdUnlocked_def)
  have m: "marked op MARK_ONLY_THIS_OP = (\<lambda>e. fst e = op)"
    by (rule ext) (simp add: marked_def)
  have w: "fired (MarkFinished op MARK_ONLY_THIS_OP (commit_watchers s)) =
         fired (commit_watchers s)
         @ map snd (filter (\<lambda>e. fst e = op) (callbacks (commit_watchers s)))"
    "callbacks (MarkFinished op MARK_ONLY_THIS_OP (commit_watchers s)) =
         filter (\<lambda>e. fst e \<noteq> op) (callbacks (commit_watchers s))"
    by (simp_all add: MarkFinished_def m)
  have l: "in_flight_applies_latch (CountDownOutstandingCommitsIfShuttingDown ?s') =
         (if state s = kShuttingDown then in_flight_applies_latch s - 1
          else in_flight_applies_latch s)"
    by (simp add: CountDownOutstandingCommitsIfShuttingDown_def CountDown_def)
  show ?thesis
    unfolding r using w l by (simp add: erase_key_def)
qed

theorem update_committed_op_id_witness:
  "OpId 5 10 \<in> in_flight_commits draining_state
   \<and> FindOrNull (pending_txns draining_state) (OpId 5 10) \<noteq> None
   \<and> (\<exists>s'. UpdateCommittedOpIdUnlocked (OpId 5 10) draining_state = Some s'
        \<and> in_flight_commits s' = {} \<and> pending_txns s' = []
        \<and> fired (commit_watchers s') = [1]
        \<and> callbacks (commit_watchers s') = [(OpId 5 11, 2)]
        \<and> in_flight_applies_latch s' = 1
        \<and> in_flight_applies_latch (CountDownOutstandingCommitsIfShuttingDown s') = 0)"
proof -
  have h1: "OpId 5 10 \<in> in_flight_commits draining_state"
    by (simp add: draining_state_def)
  have h2: "FindOrNull (pending_txns draining_state) (OpId 5 10) \<noteq> None"
    by (simp add: draining_state_def)
  have g: "in_flight_commits draining_state = {OpId 5 10}"
    "pending_txns draining_state = [(OpId 5 10, example_round (OpId 5 10) None)]"
    "commit_watchers draining_state = \<lparr>callbacks = [(OpId 5 10, 1), (OpId 5 11, 2)], fired = []\<rparr>"
    "state draining_state = kShuttingDown" "in_flight_applies_latch draining_state = 1"
    by (simp_all add: draining_state_def)
  from update_committed_op_id [OF h1 h2] obtain s' where
    s': "UpdateCommittedOpIdUnlocked (OpId 5 10) draining_state = Some s'"
      "in_flight_commits s' = in_flight_commits draining_state - {OpId 5 10}"
      "pending_txns s' = filter (\<lambda>e. fst e \<noteq> OpId 5 10) (pending_txns draining_state)"
      "fired (commit_watchers s') =
         fired (commit_watchers draining_state)
         @ map snd (filter (\<lambda>e. fst e = OpId 5 10) (callbacks (commit_watchers draining_state)))"
      "callbacks (commit_watchers s') =
         filter (\<lambda>e. fst e \<noteq> OpId 5 10) (callbacks (commit_watchers draining_state))"
      "in_flight_applies_latch s' = in_flight_applies_latch draining_state"
      "in_flight_applies_latch (CountDownOutstandingCommitsIfShuttingDown s') =
         (if state draining_state = kShuttingDown then in_flight_applies_latch draining_state - 1
          else in_flight_applies_latch draining_state)"
    by blast
  have "in_flight_commits s' = {}" "pending_txns s' = []"
    "fired (commit_watchers s') = [1]" "callbacks (commit_watchers s') = [(OpId 5 11, 2)]"
    "in_flight_applies_latch s' = 1"
    "in_flight_applies_latch (CountDownOutstandingCommitsIfShuttingDown s') = 0"
    using s'(2-7) unfolding g by simp_all
  with s'(1) h1 h2 show ?thesis by blast
qed

theorem drain_latch_counterexample:
  "state draining_state = kShuttingDown
   \<and> OpId 5 10 \<in> in_flight_commits draining_state
   \<and> FindOrNull (pending_txns draining_state) (OpId 5 10) \<noteq> None
   \<and> in_flight_applies_latch draining_state = 1
   \<and> map_option in_flight_applies_latch
        (UpdateCommittedOpIdUnlocked (OpId 5 10) draining_state) = Some 1"
  by (simp add: draining_state_def UpdateCommittedOpIdUnlocked_def)

lemma InsertOrDie_fresh:
  "FindOrNull m k = None \<Longrightarrow>
   \<exists>m'. InsertOrDie m k v = Some m' \<and> erase_key k m' = m \<and> FindOrNull m' k = Some v"
proof (induction m)
  case Nil
  then show ?case by (simp add: erase_key_def)
next
  case (Cons e m)
  then show ?case by (auto simp: erase_key_def split: if_splits)
qed

text \<open>
  Claim C7: \<^verbatim>\<open>NewIdUnlocked\<close> returns (current term, next index) and increments the
  next index; once a round with that id has been admitted (the replica is running or
  the round is a config change, and the id is not pending yet),
  \<^verbatim>\<open>CancelPendingOperation\<close> on the id passes both checks, puts the next index back
  and removes the pending entry, so that the state is the one before the id was
  assigned.
\<close>

theorem cancel_pending_inverts_new_id:
  assumes adm: "state s = kRunning \<or> round_op_type round = CHANGE_CONFIG_OP"
    and rid: "round_id round = fst (NewIdUnlocked s)"
    and fresh: "FindOrNull (pending_txns s) (fst (NewIdUnlocked s)) = None"
  shows "fst (NewIdUnlocked s) = OpId (GetCurrentTermUnlocked s) (next_index s)
     \<and> next_index (snd (NewIdUnlocked s)) = next_index s + 1
     \<and> (\<exists>s2 s3. AddPendingOperation round (snd (NewIdUnlocked s)) = Some (OK, s2)
          \<and> FindOrNull (pending_txns s2) (fst (NewIdUnlocked s)) = Some round
          \<and> CancelPendingOperation (fst (NewIdUnlocked s)) s2 = Some s3
          \<and> next_index s3 = next_index s
          \<and> pending_txns s3 = pending_txns s
          \<and> s3 = s)"
proof -
  let ?id = "OpId (GetCurrentTermUnlocked s) (next_index s)"
  have id: "fst (NewIdUnlocked s) = ?id"
    by (simp add: NewIdUnlocked_def)
  from fresh id have "FindOrNull (pending_txns s) ?id = None" by simp
  from InsertOrDie_fresh [OF this, of round] obtain m' where
    ins: "InsertOrDie (pending_txns s) ?id round = Some m'"
    and er: "erase_key ?id m' = pending_txns s"
    and fi: "FindOrNull m' ?id = Some round"
    by blast
  let ?s2 = "s\<lparr>next_index := next_index s + 1, pending_txns := m'\<rparr>"
  have add: "AddPendingOperation round (snd (NewIdUnlocked s)) = Some (OK, ?s2)"
    using adm rid ins by (auto simp: AddPendingOperation_def NewIdUnlocked_def)
  have cancel: "CancelPendingOperation ?id ?s2 = Some s"
    using er fi by (simp add: CancelPendingOperation_def GetCurrentTermUnlocked_def)
  from id add cancel fi show ?thesis
    by (simp add: NewIdUnlocked_def)
qed

theorem cancel_pending_inverts_new_id_witness:
  "state leading_state = kRunning
   \<and> fst (NewIdUnlocked leading_state) = OpId 5 10
   \<and> FindOrNull (pending_txns leading_state) (OpId 5 10) = None
   \<and> (\<exists>s2 s3. AddPendingOperation (example_round (OpId 5 10) None)
                 (snd (NewIdUnlocked leading_state)) = Some (OK, s2)
         \<and> CancelPendingOperation (OpId 5 10) s2 = Some s3
         \<and> next_index s3 = 10
         \<and> pending_txns s3 = [(OpId 5 9, example_round (OpId 5 9) None)])"
proof -
  have n: "fst (NewIdUnlocked leading_state) = OpId 5 10"
    by (simp add: NewIdUnlocked_def leading_state_def GetCurrentTermUnlocked_def example_defs)
  have a: "state leading_state = kRunning
      \<or> round_op_type (example_round (OpId 5 10) None) = CHANGE_CONFIG_OP"
    by (simp add: leading_state_def)
  have r: "round_id (example_round (OpId 5 10) None) = fst (NewIdUnlocked leading_state)"
    by (simp add: n example_round_def)
  have f: "FindOrNull (pending_txns leading_state) (fst (NewIdUnlocked leading_state)) = None"
    by (simp add: n) (simp add: leading_state_def)
  have g: "next_index leading_state = 10"
    "pending_txns leading_state = [(OpId 5 9, example_round (OpId 5 9) None)]"
    "state leading_state = kRunning"
    by (simp_all add: leading_state_def)
  from cancel_pending_inverts_new_id [OF a r f] n f g show ?thesis
    by auto
qed

section \<open>Advancing the commit watermark\<close>

subsection \<open>The order on OpIds and the range between two upper bounds\<close>

lemma OpIdLessThan_iff:
  "OpIdLessThan a b \<longleftrightarrow>
     op_term a < op_term b \<or> (op_term a = op_term b \<and> op_index a < op_index b)"
  by (auto simp: OpIdLessThan_def OpIdCompare_def)

lemma OpIdLessThan_trans: "OpIdLessThan a b \<Longrightarrow> OpIdLessThan b c \<Longrightarrow> OpIdLessThan a c"
  by (auto simp: OpIdLessThan_iff)

lemma OpIdLessThan_irrefl: "\<not> OpIdLessThan a a"
  by (simp add: OpIdLessThan_iff)

lemma OpIdLessThan_le_trans:
  "\<not> OpIdLessThan a b \<Longrightarrow> OpIdLessThan a c \<Longrightarrow> OpIdLessThan b c"
  by (cases a; cases b; cases c) (auto simp: OpIdLessThan_iff)

lemma OpIdCompare_ge_iff: "OpIdCompare a b \<ge> 0 \<longleftrightarrow> \<not> OpIdLessThan a b"
  by (simp add: OpIdLessThan_def not_less)

lemma OpIdCompare_flip: "OpIdCompare a b \<ge> 0 \<longleftrightarrow> OpIdCompare b a \<le> 0"
  by (cases a; cases b) (auto simp: OpIdCompare_def)

lemma OpIdCompare_gt_iff: "OpIdCompare a b > 0 \<longleftrightarrow> OpIdLessThan b a"
  by (cases a; cases b) (auto simp: OpIdLessThan_def OpIdCompare_def)

lemma upper_bound_split:
  assumes "\<And>e. P e \<Longrightarrow> Q e"
  shows "length (takeWhile Q m) =
     length (takeWhile P m) + length (takeWhile Q (dropWhile P m))"
  using assms by (induction m) auto

lemma iter_range_takeWhile:
  assumes "OpIdLessThan lo hi"
  shows "iter_range m (upper_bound m lo) (upper_bound m hi) =
     takeWhile (\<lambda>e. \<not> OpIdLessThan hi (fst e)) (dropWhile (\<lambda>e. \<not> OpIdLessThan lo (fst e)) m)"
proof -
  let ?P = "\<lambda>e::OpId \<times> 'a. \<not> OpIdLessThan lo (fst e)"
  let ?Q = "\<lambda>e::OpId \<times> 'a. \<not> OpIdLessThan hi (fst e)"
  have imp: "?P e \<Longrightarrow> ?Q e" for e
    using assms OpIdLessThan_trans by blast
  have len: "upper_bound m hi - upper_bound m lo = length (takeWhile ?Q (dropWhile ?P m))"
    unfolding upper_bound_def using upper_bound_split [of ?P ?Q m] imp by simp
  have "drop (upper_bound m lo) m = dropWhile ?P m"
    by (simp add: upper_bound_def dropWhile_eq_drop)
  then show ?thesis
    by (simp add: iter_range_def len takeWhile_eq_take [symmetric])
qed

lemma takeWhile_sorted_filter:
  "sorted_wrt OpIdLessThan (map fst m) \<Longrightarrow>
   takeWhile (\<lambda>e. \<not> OpIdLessThan hi (fst e)) m = filter (\<lambda>e. \<not> OpIdLessThan hi (fst e)) m"
proof (induction m)
  case Nil
  then show ?case by simp
next
  case (Cons e m)
  show ?case
  proof (cases "OpIdLessThan hi (fst e)")
    case True
    with Cons.prems have "\<forall>x \<in> set m. OpIdLessThan hi (fst x)"
      by (auto intro: OpIdLessThan_trans)
    with True show ?thesis by (simp add: filter_empty_conv)
  next
    case False
    with Cons show ?thesis by simp
  qed
qed

lemma range_sorted_filter:
  "sorted_wrt OpIdLessThan (map fst m) \<Longrightarrow>
   takeWhile (\<lambda>e. \<not> OpIdLessThan hi (fst e)) (dropWhile (\<lambda>e. \<not> OpIdLessThan lo (fst e)) m) =
   filter (\<lambda>e. OpIdLessThan lo (fst e) \<and> \<not> OpIdLessThan hi (fst e)) m"
proof (induction m)
  case Nil
  then show ?case by simp
next
  case (Cons e m)
  show ?case
  proof (cases "OpIdLessThan lo (fst e)")
    case True
    with Cons.prems have all: "\<forall>x \<in> set (e # m). OpIdLessThan lo (fst x)"
      by (auto intro: OpIdLessThan_trans)
    then have "filter (\<lambda>x. OpIdLessThan lo (fst x) \<and> \<not> OpIdLessThan hi (fst x)) (e # m) =
        filter (\<lambda>x. \<not> OpIdLessThan hi (fst x)) (e # m)"
      by (intro filter_cong) auto
    moreover have "dropWhile (\<lambda>x. \<not> OpIdLessThan lo (fst x)) (e # m) = e # m"
      using True by simp
    ultimately show ?thesis
      using takeWhile_sorted_filter [OF Cons.prems, of hi] by simp
  next
    case False
    with Cons show ?thesis by simp
  qed
qed

lemma iter_range_eligible:
  "map_wf m \<Longrightarrow> OpIdLessThan lo hi \<Longrightarrow>
   iter_range m (upper_bound m lo) (upper_bound m hi) = eligible m lo hi"
  by (simp add: iter_range_takeWhile range_sorted_filter map_wf_def eligible_def)

lemma sorted_wrt_filter_keys:
  "sorted_wrt OpIdLessThan (map fst m) \<Longrightarrow> sorted_wrt OpIdLessThan (map fst (filter P m))"
  by (induction m) auto

lemma sorted_keys_distinct:
  "sorted_wrt OpIdLessThan (map fst m) \<Longrightarrow> distinct (map fst m)"
  by (induction m) (auto simp: OpIdLessThan_irrefl)

subsection \<open>The loop over the eligible rounds\<close>

lemma commit_loop_prefix:
  assumes "\<forall>e \<in> set pre. trigger_status (callback_pool s) (snd e) = OK"
    and "distinct (map (\<lambda>e. round_id (snd e)) pre)"
    and "\<forall>e \<in> set pre. round_id (snd e) \<notin> in_flight_commits s"
  shows "commit_loop (pre @ rest) s =
     commit_loop rest
       (s\<lparr>in_flight_commits := in_flight_commits s \<union> (\<lambda>e. round_id (snd e)) ` set pre,
          trace := trace s @ map (\<lambda>e. trigger_event (snd e)) pre\<rparr>)"
  using assms
proof (induction pre arbitrary: s)
  case Nil
  then show ?case by simp
next
  case (Cons e pre)
  let ?s2 = "s\<lparr>in_flight_commits := insert (round_id (snd e)) (in_flight_commits s),
      trace := trace s @ [trigger_event (snd e)]\<rparr>"
  from Cons.prems have ok: "trigger_status (callback_pool s) (snd e) = OK"
    and fresh: "round_id (snd e) \<notin> in_flight_commits s"
    by simp_all
  have step: "commit_loop ((e # pre) @ rest) s = commit_loop (pre @ rest) ?s2"
    using ok fresh
    by (simp add: trigger_status_def trigger_event_def Let_def split: option.splits)
  have "commit_loop (pre @ rest) ?s2 =
     commit_loop rest
       (?s2\<lparr>in_flight_commits := in_flight_commits ?s2 \<union> (\<lambda>e. round_id (snd e)) ` set pre,
          trace := trace ?s2 @ map (\<lambda>e. trigger_event (snd e)) pre\<rparr>)"
  proof (rule Cons.IH)
    show "\<forall>x \<in> set pre. trigger_status (callback_pool ?s2) (snd x) = OK"
      using Cons.prems(1) by simp
    show "distinct (map (\<lambda>x. round_id (snd x)) pre)"
      using Cons.prems(2) by simp
    have "round_id (snd e) \<notin> (\<lambda>x. round_id (snd x)) ` set pre"
      using Cons.prems(2) by simp
    then have "\<forall>x \<in> set pre. round_id (snd x) \<noteq> round_id (snd e)"
      by (metis imageI)
    with Cons.prems(3) show "\<forall>x \<in> set pre. round_id (snd x) \<notin> in_flight_commits ?s2"
      by simp
  qed
  with step show ?case by simp
qed

lemma pending_wf_ids:
  assumes "pending_wf s"
  shows "map (\<lambda>e. round_id (snd e)) (eligible (pending_txns s) lo hi) =
           map fst (eligible (pending_txns s) lo hi)"
    and "distinct (map fst (eligible (pending_txns s) lo hi))"
    and "sorted_wrt OpIdLessThan (map fst (eligible (pending_txns s) lo hi))"
proof -
  from assms have k: "\<forall>e \<in> set (pending_txns s). round_id (snd e) = fst e"
    and srt: "sorted_wrt OpIdLessThan (map fst (pending_txns s))"
    by (simp_all add: pending_wf_def map_wf_def list_all_iff)
  from k show "map (\<lambda>e. round_id (snd e)) (eligible (pending_txns s) lo hi) =
           map fst (eligible (pending_txns s) lo hi)"
    by (simp add: eligible_def)
  from srt show "sorted_wrt OpIdLessThan (map fst (eligible (pending_txns s) lo hi))"
    unfolding eligible_def by (rule sorted_wrt_filter_keys)
  then show "distinct (map fst (eligible (pending_txns s) lo hi))"
    by (rule sorted_keys_distinct)
qed

lemma Mark_running:
  assumes "state s = kRunning" and "OpIdCompare id0 (last_triggered_apply s) > 0"
    and "pending_wf s"
  shows "MarkConsensusCommittedUpToUnlocked id0 s =
     (case commit_loop (eligible (pending_txns s) (last_triggered_apply s) id0) s of
        None \<Rightarrow> None
      | Some (st, s1) \<Rightarrow>
          if st \<noteq> OK then Some (st, s1) else Some (OK, s1\<lparr>last_triggered_apply := id0\<rparr>))"
proof -
  from assms(2) have lt: "OpIdLessThan (last_triggered_apply s) id0"
    by (simp add: OpIdCompare_gt_iff)
  then have "\<not> OpIdCompare (last_triggered_apply s) id0 \<ge> 0"
    by (simp add: OpIdCompare_ge_iff)
  moreover from assms(3) have "map_wf (pending_txns s)"
    by (simp add: pending_wf_def)
  ultimately show ?thesis
    using assms(1) lt
    by (simp add: MarkConsensusCommittedUpToUnlocked_def iter_range_eligible)
qed

subsection \<open>The example batch\<close>

lemmas OpId_order_defs = OpIdCompare_def OpIdLessThan_def

lemma batch_state_fields:
  "state (batch_state st) = kRunning"
  "last_triggered_apply (batch_state st) = OpId 5 9"
  "in_flight_commits (batch_state st) = {}"
  "trace (batch_state st) = []"
  "callback_pool (batch_state st) = ThreadPool (\<lambda>cb. OK)"
  "pending_txns (batch_state st) =
     [(OpId 5 10, example_round (OpId 5 10) (Some (ReplicaCommitContinuation OK))),
      (OpId 5 11, example_round (OpId 5 11) (Some (ReplicaCommitContinuation st))),
      (OpId 5 12, example_round (OpId 5 12) None)]"
  by (simp_all add: batch_state_def example_defs)

lemma batch_state_wf: "pending_wf (batch_state st)"
  by (simp add: pending_wf_def map_wf_def batch_state_fields example_round_def OpId_order_defs)

lemma batch_state_eligible:
  "eligible (pending_txns (batch_state st)) (OpId 5 9) (OpId 5 12) =
     [(OpId 5 10, example_round (OpId 5 10) (Some (ReplicaCommitContinuation OK))),
      (OpId 5 11, example_round (OpId 5 11) (Some (ReplicaCommitContinuation st))),
      (OpId 5 12, example_round (OpId 5 12) None)]"
  by (simp add: eligible_def batch_state_fields OpId_order_defs)

subsection \<open>The commit advance\<close>

text \<open>
  Claim C1, as the code has it: \<^verbatim>\<open>MarkConsensusCommittedUpToUnlocked\<close> returns
  ServiceUnavailable without a change when the replica is shutting down or shut down,
  IllegalState without a change in the other states that are not running, and OK
  without a change when the id is not greater than the last triggered apply.
  Otherwise, on a well-formed pending map, when no eligible op (key greater than the
  last triggered apply and not greater than the id) is in flight already and
  triggering each of them succeeds, it returns OK, the eligible ops have been added to
  the in-flight set and triggered (continuation invoked, or callback submitted to the
  pool) in ascending OpId order, and the last triggered apply is the id. The
  restriction to triggers that succeed is needed, as the counterexample after the
  theorem shows: a failing trigger ends the call with the watermark where it was.
\<close>

theorem mark_consensus_committed_up_to:
  "(state s = kShuttingDown \<or> state s = kShutDown \<longrightarrow>
      MarkConsensusCommittedUpToUnlocked id0 s = Some (ServiceUnavailable, s))
   \<and> (state s = kInitialized \<or> state s = kChangingConfig \<longrightarrow>
      MarkConsensusCommittedUpToUnlocked id0 s = Some (IllegalState, s))
   \<and> (state s = kRunning \<and> OpIdCompare id0 (last_triggered_apply s) \<le> 0 \<longrightarrow>
      MarkConsensusCommittedUpToUnlocked id0 s = Some (OK, s))
   \<and> (state s = kRunning \<and> OpIdCompare id0 (last_triggered_apply s) > 0 \<and> pending_wf s
       \<and> (\<forall>e \<in> set (eligible (pending_txns s) (last_triggered_apply s) id0).
             fst e \<notin> in_flight_commits s \<and> trigger_status (callback_pool s) (snd e) = OK) \<longrightarrow>
      MarkConsensusCommittedUpToUnlocked id0 s =
        Some (OK, s\<lparr>in_flight_commits :=
                      in_flight_commits s
                      \<union> fst ` set (eligible (pending_txns s) (last_triggered_apply s) id0),
                    trace :=
                      trace s
                      @ map (\<lambda>e. trigger_event (snd e))
                          (eligible (pending_txns s) (last_triggered_apply s) id0),
                    last_triggered_apply := id0\<rparr>)
      \<and> sorted_wrt OpIdLessThan
          (map fst (eligible (pending_txns s) (last_triggered_apply s) id0)))"
proof -
  let ?el = "eligible (pending_txns s) (last_triggered_apply s) id0"
  have a: "state s = kShuttingDown \<or> state s = kShutDown \<longrightarrow>
      MarkConsensusCommittedUpToUnlocked id0 s = Some (ServiceUnavailable, s)"
    by (simp add: MarkConsensusCommittedUpToUnlocked_def)
  have b: "state s = kInitialized \<or> state s = kChangingConfig \<longrightarrow>
      MarkConsensusCommittedUpToUnlocked id0 s = Some (IllegalState, s)"
    by (auto simp: MarkConsensusCommittedUpToUnlocked_def)
  have c: "state s = kRunning \<and> OpIdCompare id0 (last_triggered_apply s) \<le> 0 \<longrightarrow>
      MarkConsensusCommittedUpToUnlocked id0 s = Some (OK, s)"
    by (simp add: MarkConsensusCommittedUpToUnlocked_def OpIdCompare_flip [of _ id0])
  have d: "MarkConsensusCommittedUpToUnlocked id0 s =
        Some (OK, s\<lparr>in_flight_commits := in_flight_commits s \<union> fst ` set ?el,
                    trace := trace s @ map (\<lambda>e. trigger_event (snd e)) ?el,
                    last_triggered_apply := id0\<rparr>)
      \<and> sorted_wrt OpIdLessThan (map fst ?el)"
    if run: "state s = kRunning" and gt: "OpIdCompare id0 (last_triggered_apply s) > 0"
      and wf: "pending_wf s"
      and el: "\<forall>e \<in> set ?el.
             fst e \<notin> in_flight_commits s \<and> trigger_status (callback_pool s) (snd e) = OK"
  proof -
    note ids = pending_wf_ids [OF wf, of "last_triggered_apply s" id0]
    have img: "(\<lambda>e. round_id (snd e)) ` set ?el = fst ` set ?el"
      using ids(1) by (metis image_set)
    have fresh: "\<forall>e \<in> set ?el. round_id (snd e) \<notin> in_flight_commits s"
    proof
      fix e assume e: "e \<in> set ?el"
      then have "e \<in> set (pending_txns s)" by (simp add: eligible_def)
      with wf have "round_id (snd e) = fst e"
        by (simp add: pending_wf_def list_all_iff)
      with el e show "round_id (snd e) \<notin> in_flight_commits s" by simp
    qed
    have "commit_loop (?el @ []) s =
       commit_loop []
         (s\<lparr>in_flight_commits := in_flight_commits s \<union> (\<lambda>e. round_id (snd e)) ` set ?el,
            trace := trace s @ map (\<lambda>e. trigger_event (snd e)) ?el\<rparr>)"
    proof (rule commit_loop_prefix)
      show "\<forall>e \<in> set ?el. trigger_status (callback_pool s) (snd e) = OK"
        using el by simp
      show "distinct (map (\<lambda>e. round_id (snd e)) ?el)"
        by (simp only: ids(1) ids(2))
      show "\<forall>e \<in> set ?el. round_id (snd e) \<notin> in_flight_commits s"
        by (rule fresh)
    qed
    then have "commit_loop ?el s =
       Some (OK, s\<lparr>in_flight_commits := in_flight_commits s \<union> fst ` set ?el,
            trace := trace s @ map (\<lambda>e. trigger_event (snd e)) ?el\<rparr>)"
      by (simp add: img)
    then show ?thesis
      using ids(3) by (simp add: Mark_running [OF run gt wf])
  qed
  from a b c d show ?thesis by blast
qed

theorem mark_consensus_committed_up_to_witness:
  "MarkConsensusCommittedUpToUnlocked (OpId 5 12) draining_state
     = Some (ServiceUnavailable, draining_state)
   \<and> MarkConsensusCommittedUpToUnlocked (OpId 5 12) (example_state 5 None OK)
     = Some (IllegalState, example_state 5 None OK)
   \<and> MarkConsensusCommittedUpToUnlocked (OpId 5 9) (batch_state OK)
     = Some (OK, batch_state OK)
   \<and> (\<exists>s'. MarkConsensusCommittedUpToUnlocked (OpId 5 12) (batch_state OK) = Some (OK, s')
        \<and> in_flight_commits s' = {OpId 5 10, OpId 5 11, OpId 5 12}
        \<and> trace s' = [ConsensusCommittedCall (OpId 5 10), ConsensusCommittedCall (OpId 5 11),
                       SubmitCall 0]
        \<and> last_triggered_apply s' = OpId 5 12)"
proof -
  have a: "state draining_state = kShuttingDown \<or> state draining_state = kShutDown"
    by (simp add: draining_state_def)
  have b: "state (example_state 5 None OK) = kInitialized
      \<or> state (example_state 5 None OK) = kChangingConfig"
    by (simp add: example_defs)
  have c: "state (batch_state OK) = kRunning
      \<and> OpIdCompare (OpId 5 9) (last_triggered_apply (batch_state OK)) \<le> 0"
    by (simp add: batch_state_fields OpId_order_defs)
  have d: "state (batch_state OK) = kRunning
      \<and> OpIdCompare (OpId 5 12) (last_triggered_apply (batch_state OK)) > 0
      \<and> pending_wf (batch_state OK)
      \<and> (\<forall>e \<in> set (eligible (pending_txns (batch_state OK))
                       (last_triggered_apply (batch_state OK)) (OpId 5 12)).
             fst e \<notin> in_flight_commits (batch_state OK)
             \<and> trigger_status (callback_pool (batch_state OK)) (snd e) = OK)"
    by (simp add: batch_state_wf)
      (simp add: batch_state_fields(1-5) batch_state_eligible trigger_status_def
        example_round_def OpId_order_defs)
  have r1: "MarkConsensusCommittedUpToUnlocked (OpId 5 12) draining_state
     = Some (ServiceUnavailable, draining_state)"
    using mark_consensus_committed_up_to [of draining_state "OpId 5 12"] a by blast
  have r2: "MarkConsensusCommittedUpToUnlocked (OpId 5 12) (example_state 5 None OK)
     = Some (IllegalState, example_state 5 None OK)"
    using mark_consensus_committed_up_to [of "example_state 5 None OK" "OpId 5 12"] b by blast
  have r3: "MarkConsensusCommittedUpToUnlocked (OpId 5 9) (batch_state OK)
     = Some (OK, batch_state OK)"
    using mark_consensus_committed_up_to [of "batch_state OK" "OpId 5 9"] c by blast
  have r4: "MarkConsensusCommittedUpToUnlocked (OpId 5 12) (batch_state OK) =
        Some (OK, (batch_state OK)\<lparr>in_flight_commits :=
                      in_flight_commits (batch_state OK)
                      \<union> fst ` set (eligible (pending_txns (batch_state OK))
                                    (last_triggered_apply (batch_state OK)) (OpId 5 12)),
                    trace :=
                      trace (batch_state OK)
                      @ map (\<lambda>e. trigger_event (snd e))
                          (eligible (pending_txns (batch_state OK))
                             (last_triggered_apply (batch_state OK)) (OpId 5 12)),
                    last_triggered_apply := OpId 5 12\<rparr>)"
    using mark_consensus_committed_up_to [of "batch_state OK" "OpId 5 12"] d by blast
  have r4': "\<exists>s'. MarkConsensusCommittedUpToUnlocked (OpId 5 12) (batch_state OK) = Some (OK, s')
        \<and> in_flight_commits s' = {OpId 5 10, OpId 5 11, OpId 5 12}
        \<and> trace s' = [ConsensusCommittedCall (OpId 5 10), ConsensusCommittedCall (OpId 5 11),
                       SubmitCall 0]
        \<and> last_triggered_apply s' = OpId 5 12"
    unfolding r4
    by (simp add: batch_state_fields(1-5) batch_state_eligible trigger_event_def
        example_round_def)
  from r1 r2 r3 r4' show ?thesis by blast
qed

theorem mark_consensus_committed_up_to_counterexample:
  "state (batch_state IOError) = kRunning
   \<and> OpIdCompare (OpId 5 12) (last_triggered_apply (batch_state IOError)) > 0
   \<and> map_option fst (MarkConsensusCommittedUpToUnlocked (OpId 5 12) (batch_state IOError))
       = Some IOError
   \<and> map_option (\<lambda>r. last_triggered_apply (snd r))
        (MarkConsensusCommittedUpToUnlocked (OpId 5 12) (batch_state IOError))
       = Some (OpId 5 9)
   \<and> map_option (\<lambda>r. in_flight_commits (snd r))
        (MarkConsensusCommittedUpToUnlocked (OpId 5 12) (batch_state IOError))
       = Some {OpId 5 10, OpId 5 11}"
proof -
  have r: "iter_range (pending_txns (batch_state IOError))
       (upper_bound (pending_txns (batch_state IOError)) (OpId 5 9))
       (upper_bound (pending_txns (batch_state IOError)) (OpId 5 12)) =
     pending_txns (batch_state IOError)"
    by (simp add: batch_state_fields(6) upper_bound_def iter_range_def OpId_order_defs)
  have m: "MarkConsensusCommittedUpToUnlocked (OpId 5 12) (batch_state IOError) =
     Some (IOError, (batch_state IOError)\<lparr>in_flight_commits := {OpId 5 10, OpId 5 11},
       trace := [ConsensusCommittedCall (OpId 5 10), ConsensusCommittedCall (OpId 5 11)]\<rparr>)"
    unfolding MarkConsensusCommittedUpToUnlocked_def batch_state_fields(1,2) Let_def r
    by (simp add: batch_state_fields OpId_order_defs example_round_def insert_commute)
  show ?thesis
    unfolding m by (simp add: batch_state_fields OpId_order_defs)
qed

text \<open>
  Claim C10: in a running replica with a well-formed pending map and an id greater
  than the last triggered apply, when triggering the eligible ops succeeds for those
  before the k-th and returns an error for the k-th (and none of these k ops is in
  flight already), \<^verbatim>\<open>MarkConsensusCommittedUpToUnlocked\<close> returns that error, the
  first k eligible ops stay in the in-flight set, and the last triggered apply is
  what it was before the call.
\<close>

theorem mark_consensus_committed_not_atomic:
  assumes run: "state s = kRunning"
    and gt: "OpIdCompare id0 (last_triggered_apply s) > 0"
    and wf: "pending_wf s"
    and el: "eligible (pending_txns s) (last_triggered_apply s) id0 = pre @ e # post"
    and ok: "\<forall>x \<in> set pre. trigger_status (callback_pool s) (snd x) = OK"
    and err: "trigger_status (callback_pool s) (snd e) \<noteq> OK"
    and fresh: "\<forall>x \<in> set (pre @ [e]). fst x \<notin> in_flight_commits s"
  shows "\<exists>s'. MarkConsensusCommittedUpToUnlocked id0 s =
            Some (trigger_status (callback_pool s) (snd e), s')
     \<and> s' = s\<lparr>in_flight_commits := in_flight_commits s \<union> fst ` set (pre @ [e]),
              trace := trace s @ map (\<lambda>x. trigger_event (snd x)) (pre @ [e])\<rparr>
     \<and> fst ` set (pre @ [e]) \<subseteq> in_flight_commits s'
     \<and> last_triggered_apply s' = last_triggered_apply s"
proof -
  let ?el = "eligible (pending_txns s) (last_triggered_apply s) id0"
  let ?rid = "\<lambda>x::OpId \<times> ConsensusRound. round_id (snd x)"
  note ids = pending_wf_ids [OF wf, of "last_triggered_apply s" id0]
  have key: "?rid x = fst x" if "x \<in> set (pre @ [e])" for x
  proof -
    from that el have "x \<in> set ?el" by auto
    then have "x \<in> set (pending_txns s)" by (simp add: eligible_def)
    with wf show ?thesis by (simp add: pending_wf_def list_all_iff)
  qed
  have img: "?rid ` set pre = fst ` set pre"
    using key by (intro image_cong) auto
  have dist: "distinct (map ?rid (pre @ [e]))"
  proof -
    have m: "map ?rid (pre @ [e]) = map fst (pre @ [e])"
      using key by (intro map_cong) auto
    from ids(2) el have d: "distinct (map fst (pre @ [e]))" by simp
    show ?thesis by (simp only: m d)
  qed
  let ?s1 = "s\<lparr>in_flight_commits := in_flight_commits s \<union> fst ` set pre,
      trace := trace s @ map (\<lambda>x. trigger_event (snd x)) pre\<rparr>"
  have "commit_loop (pre @ e # post) s =
     commit_loop (e # post)
       (s\<lparr>in_flight_commits := in_flight_commits s \<union> ?rid ` set pre,
          trace := trace s @ map (\<lambda>x. trigger_event (snd x)) pre\<rparr>)"
  proof (rule commit_loop_prefix)
    show "\<forall>x \<in> set pre. trigger_status (callback_pool s) (snd x) = OK" by (rule ok)
    show "distinct (map ?rid pre)" using dist by simp
    show "\<forall>x \<in> set pre. ?rid x \<notin> in_flight_commits s"
      using fresh key by simp
  qed
  then have pre: "commit_loop (pre @ e # post) s = commit_loop (e # post) ?s1"
    by (simp add: img)
  have notin: "round_id (snd e) \<notin> in_flight_commits ?s1"
  proof -
    have "?rid e \<notin> ?rid ` set pre" using dist by simp
    with img have "?rid e \<notin> fst ` set pre" by simp
    moreover have "?rid e \<notin> in_flight_commits s" using fresh key by simp
    ultimately show ?thesis by simp
  qed
  have ke: "round_id (snd e) = fst e" using key by simp
  have last: "commit_loop (e # post) ?s1 =
     Some (trigger_status (callback_pool s) (snd e),
           s\<lparr>in_flight_commits := in_flight_commits s \<union> fst ` set (pre @ [e]),
             trace := trace s @ map (\<lambda>x. trigger_event (snd x)) (pre @ [e])\<rparr>)"
    using notin err
    by (simp add: trigger_status_def trigger_event_def Let_def ke split: option.splits)
  let ?s' = "s\<lparr>in_flight_commits := in_flight_commits s \<union> fst ` set (pre @ [e]),
      trace := trace s @ map (\<lambda>x. trigger_event (snd x)) (pre @ [e])\<rparr>"
  have cl: "commit_loop ?el s = Some (trigger_status (callback_pool s) (snd e), ?s')"
    by (simp only: el pre last)
  have res: "MarkConsensusCommittedUpToUnlocked id0 s =
      Some (trigger_status (callback_pool s) (snd e), ?s')"
    unfolding Mark_running [OF run gt wf] cl using err by simp
  have "fst ` set (pre @ [e]) \<subseteq> in_flight_commits ?s'"
    "last_triggered_apply ?s' = last_triggered_apply s"
    by auto
  with res show ?thesis by blast
qed

theorem mark_consensus_committed_not_atomic_witness:
  "\<exists>s'. MarkConsensusCommittedUpToUnlocked (OpId 5 12) (batch_state Aborted) = Some (Aborted, s')
     \<and> in_flight_commits s' = {OpId 5 10, OpId 5 11}
     \<and> trace s' = [ConsensusCommittedCall (OpId 5 10), ConsensusCommittedCall (OpId 5 11)]
     \<and> last_triggered_apply s' = OpId 5 9"
proof -
  let ?s = "batch_state Aborted"
  let ?pre = "[(OpId 5 10, example_round (OpId 5 10) (Some (ReplicaCommitContinuation OK)))]"
  let ?e = "(OpId 5 11, example_round (OpId 5 11) (Some (ReplicaCommitContinuation Aborted)))"
  let ?post = "[(OpId 5 12, example_round (OpId 5 12) None)]"
  have run: "state ?s = kRunning"
    by (simp add: batch_state_fields)
  have gt: "OpIdCompare (OpId 5 12) (last_triggered_apply ?s) > 0"
    by (simp add: batch_state_fields OpId_order_defs)
  have el: "eligible (pending_txns ?s) (last_triggered_apply ?s) (OpId 5 12) = ?pre @ ?e # ?post"
    by (simp add: batch_state_fields(2) batch_state_eligible)
  have ok: "\<forall>x \<in> set ?pre. trigger_status (callback_pool ?s) (snd x) = OK"
    by (simp add: trigger_status_def example_round_def)
  have err: "trigger_status (callback_pool ?s) (snd ?e) \<noteq> OK"
    by (simp add: trigger_status_def example_round_def)
  have fresh: "\<forall>x \<in> set (?pre @ [?e]). fst x \<notin> in_flight_commits ?s"
    by (simp add: batch_state_fields)
  from mark_consensus_committed_not_atomic [OF run gt batch_state_wf el ok err fresh]
  obtain s' where
    r: "MarkConsensusCommittedUpToUnlocked (OpId 5 12) ?s =
          Some (trigger_status (callback_pool ?s) (snd ?e), s')"
    and s': "s' = ?s\<lparr>in_flight_commits := in_flight_commits ?s \<union> fst ` set (?pre @ [?e]),
              trace := trace ?s @ map (\<lambda>x. trigger_event (snd x)) (?pre @ [?e])\<rparr>"
    by blast
  have st: "trigger_status (callback_pool ?s) (snd ?e) = Aborted"
    by (simp add: trigger_status_def example_round_def)
  have "in_flight_commits s' = {OpId 5 10, OpId 5 11}"
    "trace s' = [ConsensusCommittedCall (OpId 5 10), ConsensusCommittedCall (OpId 5 11)]"
    "last_triggered_apply s' = OpId 5 9"
    unfolding s'
    by (simp_all add: batch_state_fields(1-5) trigger_event_def example_round_def insert_commute)
  with r st show ?thesis by simp
qed

section \<open>Applying a FINALIZE_COMMIT participant op\<close>

text \<open>
  Claim C9: for a FINALIZE_COMMIT op whose state holds its transaction,
  \<^verbatim>\<open>ParticipantOp::Apply\<close> succeeds with a PARTICIPANT_OP commit message; the
  transaction's \<^verbatim>\<open>FinalizeCommit\<close> is called with the op id and the finalized commit
  timestamp; the commit MVCC op is finished when the transaction holds one, and when
  it holds none the slot stays empty and nothing else is done to MVCC ops.
\<close>

theorem finalize_commit_apply:
  assumes "op_type (request st) = FINALIZE_COMMIT" and "txn st = Some t"
  shows "\<exists>st' t'. Apply st = Some (OK, st', Some (CommitMsg PARTICIPANT_OP))
     \<and> txn st' = Some t'
     \<and> mutations t' =
         mutations t @ [FinalizeCommitCall (op_id st) (finalized_commit_timestamp (request st))]
     \<and> commit_op t' = map_option FinishApplying (commit_op t)
     \<and> (commit_op t = None \<longrightarrow> commit_op t' = None)
     \<and> (\<forall>m. commit_op t = Some m \<longrightarrow> commit_op t' = Some (m\<lparr>mvcc_state := FINISHED\<rparr>))
     \<and> begin_commit_mvcc_op st' = begin_commit_mvcc_op st"
  using assms
  by (auto simp: Apply_def PerformOp_def StartApplying_def FinalizeCommit_def FinishApplying_def
      Let_def split: option.splits)

theorem finalize_commit_apply_witness:
  "(\<exists>st' t'. Apply (example_op_state None) = Some (OK, st', Some (CommitMsg PARTICIPANT_OP))
      \<and> txn st' = Some t' \<and> mutations t' = [FinalizeCommitCall (OpId 5 12) 105]
      \<and> commit_op t' = None)
   \<and> (\<exists>st' t'. Apply (example_op_state (Some \<lparr>mvcc_timestamp = 100, mvcc_state = IN_PROGRESS\<rparr>))
          = Some (OK, st', Some (CommitMsg PARTICIPANT_OP))
      \<and> txn st' = Some t' \<and> mutations t' = [FinalizeCommitCall (OpId 5 12) 105]
      \<and> commit_op t' = Some \<lparr>mvcc_timestamp = 100, mvcc_state = FINISHED\<rparr>)"
proof -
  let ?t = "\<lambda>m. \<lparr>txn_state = kCommitInProgress, commit_timestamp = None, commit_op = m,
                  mutations = []\<rparr>"
  have h: "op_type (request (example_op_state m)) = FINALIZE_COMMIT"
    "txn (example_op_state m) = Some (?t m)"
    "op_id (example_op_state m) = OpId 5 12"
    "finalized_commit_timestamp (request (example_op_state m)) = 105" for m
    by (simp_all add: example_op_state_def finalized_commit_timestamp_def)
  from finalize_commit_apply [OF h(1) h(2), of None]
    finalize_commit_apply [OF h(1) h(2), of "Some \<lparr>mvcc_timestamp = 100, mvcc_state = IN_PROGRESS\<rparr>"]
  show ?thesis
    unfolding h by (auto simp: FinishApplying_def)
qed

end
